theory Spec2Isabelle
  imports Complex_Main
begin

section \<open>JavaScript numbers\<close>

text \<open>
  Every number of the simulation is a JavaScript number. The model keeps the three
  special values of IEEE 754 apart from the finite ones, because the code divides by
  distances that can be zero: a finite value is a real, and \<open>PInf\<close>, \<open>NInf\<close> and
  \<open>NaN\<close> follow the IEEE rules that JavaScript's operators implement. The two zeros
  are one: the only divisors of the program that can be zero are a \<open>Math.sqrt\<close> of a sum
  of squares, which is never the negative zero, and a particle count. The operations
  \<open>js_add\<close>, \<open>js_sub\<close>, \<open>js_mul\<close> and \<open>js_div\<close> below give the exact result on
  finite operands; \<open>lineIntersect\<close>, which decides by equalities and bounds that
  rounding can move, uses their rounded forms, defined with it.
\<close>

datatype num = Fin real | PInf | NInf | NaN

definition inf_of_sign :: "real \<Rightarrow> num" where
  "inf_of_sign s = (if 0 < s then PInf else if s < 0 then NInf else NaN)"

fun js_neg :: "num \<Rightarrow> num" where
  "js_neg (Fin a) = Fin (- a)"
| "js_neg PInf = NInf"
| "js_neg NInf = PInf"
| "js_neg NaN = NaN"

fun js_add :: "num \<Rightarrow> num \<Rightarrow> num" where
  "js_add (Fin a) (Fin b) = Fin (a + b)"
| "js_add NaN _ = NaN"
| "js_add _ NaN = NaN"
| "js_add PInf NInf = NaN"
| "js_add NInf PInf = NaN"
| "js_add PInf _ = PInf"
| "js_add _ PInf = PInf"
| "js_add NInf _ = NInf"
| "js_add _ NInf = NInf"

definition js_sub :: "num \<Rightarrow> num \<Rightarrow> num" where
  "js_sub a b = js_add a (js_neg b)"

fun js_mul :: "num \<Rightarrow> num \<Rightarrow> num" where
  "js_mul (Fin a) (Fin b) = Fin (a * b)"
| "js_mul NaN _ = NaN"
| "js_mul _ NaN = NaN"
| "js_mul PInf (Fin b) = inf_of_sign b"
| "js_mul (Fin a) PInf = inf_of_sign a"
| "js_mul NInf (Fin b) = inf_of_sign (- b)"
| "js_mul (Fin a) NInf = inf_of_sign (- a)"
| "js_mul PInf PInf = PInf"
| "js_mul NInf NInf = PInf"
| "js_mul PInf NInf = NInf"
| "js_mul NInf PInf = NInf"

fun js_div :: "num \<Rightarrow> num \<Rightarrow> num" where
  "js_div (Fin a) (Fin b) = (if b = 0 then inf_of_sign a else Fin (a / b))"
| "js_div NaN _ = NaN"
| "js_div _ NaN = NaN"
| "js_div (Fin a) PInf = Fin 0"
| "js_div (Fin a) NInf = Fin 0"
| "js_div PInf (Fin b) = (if b < 0 then NInf else PInf)"
| "js_div NInf (Fin b) = (if b < 0 then PInf else NInf)"
| "js_div PInf PInf = NaN"
| "js_div PInf NInf = NaN"
| "js_div NInf PInf = NaN"
| "js_div NInf NInf = NaN"

text \<open>\<open>Math.sqrt\<close> and \<open>Math.hypot\<close> (an infinite argument wins over a NaN one).\<close>

fun js_sqrt :: "num \<Rightarrow> num" where
  "js_sqrt (Fin a) = (if a < 0 then NaN else Fin (sqrt a))"
| "js_sqrt PInf = PInf"
| "js_sqrt NInf = NaN"
| "js_sqrt NaN = NaN"

fun js_hypot :: "num \<Rightarrow> num \<Rightarrow> num" where
  "js_hypot (Fin a) (Fin b) = Fin (sqrt (a * a + b * b))"
| "js_hypot PInf _ = PInf"
| "js_hypot NInf _ = PInf"
| "js_hypot _ PInf = PInf"
| "js_hypot _ NInf = PInf"
| "js_hypot NaN _ = NaN"
| "js_hypot _ NaN = NaN"

text \<open>The comparisons \<open><\<close>, \<open>>\<close>, \<open><=\<close>, \<open>>=\<close> and \<open>===\<close>: all false on a NaN.\<close>

fun js_lt :: "num \<Rightarrow> num \<Rightarrow> bool" where
  "js_lt (Fin a) (Fin b) = (a < b)"
| "js_lt NaN _ = False"
| "js_lt _ NaN = False"
| "js_lt _ NInf = False"
| "js_lt NInf _ = True"
| "js_lt PInf _ = False"
| "js_lt (Fin a) PInf = True"

fun js_eq :: "num \<Rightarrow> num \<Rightarrow> bool" where
  "js_eq NaN _ = False"
| "js_eq _ NaN = False"
| "js_eq a b = (a = b)"

definition js_gt :: "num \<Rightarrow> num \<Rightarrow> bool" where
  "js_gt a b = js_lt b a"

definition js_le :: "num \<Rightarrow> num \<Rightarrow> bool" where
  "js_le a b = (js_lt a b \<or> js_eq a b)"

definition js_ge :: "num \<Rightarrow> num \<Rightarrow> bool" where
  "js_ge a b = js_le b a"

fun finite_num :: "num \<Rightarrow> bool" where
  "finite_num (Fin a) = True"
| "finite_num _ = False"

section \<open>Data model\<close>

text \<open>
  The material configuration objects of \<open>MATERIALS\<close>. A JavaScript object is open: the
  code reads the fields below and ignores any other property, so the operations are
  defined on the record scheme. The two particle counts are natural numbers, and the
  colour, which only the renderer reads, is the integer of its hexadecimal literal.
\<close>

record config =
  name :: string
  color :: nat
  friction :: num
  gravity :: num
  stiffness :: num
  particlesX :: nat
  particlesY :: nat
  mouseInfluence :: num

record particle =
  px :: num
  py :: num
  oldx :: num
  oldy :: num
  pinned :: bool

record constraint =
  p1 :: nat
  p2 :: nat
  length_c :: num
  active :: bool

text \<open>The physics state of a \<open>Cloth\<close> (its Three.js geometry, material and mesh are output only).\<close>

record 'a cloth =
  config :: "'a config_scheme"
  offsetX :: num
  particles :: "particle list"
  constraints :: "constraint list"

record mouse =
  mx :: num
  my :: num
  prevX :: num
  prevY :: num
  isDown :: bool
  isRight :: bool

text \<open>
  Reading a field of \<open>this.particles[i]\<close> with \<open>i\<close> out of range reads a field of
  \<open>undefined\<close>, which throws a TypeError.
\<close>

datatype error = TypeError

definition CLOTH_WIDTH :: num where
  "CLOTH_WIDTH = Fin 250"

definition CLOTH_HEIGHT :: num where
  "CLOTH_HEIGHT = Fin 350"

section \<open>Cloth.updatePhysics\<close>

text \<open>The iteration count: a dispatch on the material's name.\<close>

definition iterations :: "'a config_scheme \<Rightarrow> nat" where
  "iterations cfg =
     (if name cfg = ''Ultra Silk'' then 12 else if name cfg = ''Silk'' then 8 else 4)"

text \<open>
  The body of the loop over the constraints. \<open>a\<close> and \<open>b\<close> are the objects
  \<open>p1\<close> and \<open>p2\<close> of the source; they are one object when the two indices are equal, so the
  second update reads the list the first one wrote.
\<close>

definition relaxConstraint ::
  "'a config_scheme \<Rightarrow> constraint \<Rightarrow> particle list \<Rightarrow> error + particle list" where
  "relaxConstraint cfg c ps =
     (if \<not> active c then Inr ps
      else if p1 c < length ps \<and> p2 c < length ps then
        (let a = ps ! p1 c;
             b = ps ! p2 c;
             dx = js_sub (px a) (px b);
             dy = js_sub (py a) (py b);
             dist = js_sqrt (js_add (js_mul dx dx) (js_mul dy dy));
             diff = js_mul (js_div (js_sub (length_c c) dist) dist) (stiffness cfg);
             correction = js_mul diff (Fin 0.5);
             offX = js_mul dx correction;
             offY = js_mul dy correction;
             ps1 = (if \<not> pinned a
                    then ps[p1 c := a\<lparr>px := js_add (px a) offX, py := js_add (py a) offY\<rparr>]
                    else ps);
             b1 = ps1 ! p2 c;
             ps2 = (if \<not> pinned b1
                    then ps1[p2 c := b1\<lparr>px := js_sub (px b1) offX, py := js_sub (py b1) offY\<rparr>]
                    else ps1)
         in Inr ps2)
      else Inl TypeError)"

text \<open>One pass: the loop over \<open>this.constraints\<close>, in order, on the particles in place.\<close>

fun relaxPass ::
  "'a config_scheme \<Rightarrow> constraint list \<Rightarrow> particle list \<Rightarrow> error + particle list" where
  "relaxPass cfg [] ps = Inr ps"
| "relaxPass cfg (c # cs) ps =
     (case relaxConstraint cfg c ps of
        Inl e \<Rightarrow> Inl e
      | Inr ps1 \<Rightarrow> relaxPass cfg cs ps1)"

text \<open>The loop \<open>for (k = 0; k < iterations; k++)\<close>, by the number of passes left.\<close>

fun relaxLoop ::
  "nat \<Rightarrow> 'a config_scheme \<Rightarrow> constraint list \<Rightarrow> particle list \<Rightarrow> error + particle list" where
  "relaxLoop 0 cfg cs ps = Inr ps"
| "relaxLoop (Suc k) cfg cs ps =
     (case relaxPass cfg cs ps of
        Inl e \<Rightarrow> Inl e
      | Inr ps1 \<Rightarrow> relaxLoop k cfg cs ps1)"

text \<open>The body of the Verlet loop of \<open>instable-connection/dist/script.js\<close>.\<close>

definition integrateParticle :: "'a config_scheme \<Rightarrow> particle \<Rightarrow> particle" where
  "integrateParticle cfg p =
     (if pinned p then p
      else
        (let vx = js_mul (js_sub (px p) (oldx p)) (friction cfg);
             vy = js_mul (js_sub (py p) (oldy p)) (friction cfg);
             q = p\<lparr>oldx := px p, oldy := py p\<rparr>;
             q = q\<lparr>px := js_add (px q) vx\<rparr>;
             q = q\<lparr>py := js_add (py q) (js_add vy (gravity cfg))\<rparr>
         in if js_gt (py q) (Fin 300) then
              (let q = q\<lparr>py := Fin 300\<rparr>;
                   floorDamping = Fin 0.1;
                   q = (if js_gt vy (Fin 0)
                        then q\<lparr>oldy := js_sub (py q) (js_mul vy floorDamping)\<rparr>
                        else q\<lparr>oldy := py q\<rparr>)
               in q\<lparr>oldx := js_sub (px q) (js_mul vx (Fin 0.4))\<rparr>)
            else q))"

definition updatePhysics :: "'a cloth \<Rightarrow> error + 'a cloth" where
  "updatePhysics s =
     (case relaxLoop (iterations (config s)) (config s) (constraints s) (particles s) of
        Inl e \<Rightarrow> Inl e
      | Inr ps \<Rightarrow> Inr (s\<lparr>particles := map (integrateParticle (config s)) ps\<rparr>))"

text \<open>
  The older copy of the script (the unnamed source file, with three materials) differs
  in the iteration count and in the floor branch of the Verlet loop.
\<close>

definition iterations_part000 :: "'a config_scheme \<Rightarrow> nat" where
  "iterations_part000 cfg = (if name cfg = ''Silk'' then 8 else 4)"

definition integrateParticle_part000 :: "'a config_scheme \<Rightarrow> particle \<Rightarrow> particle" where
  "integrateParticle_part000 cfg p =
     (if pinned p then p
      else
        (let vx = js_mul (js_sub (px p) (oldx p)) (friction cfg);
             vy = js_mul (js_sub (py p) (oldy p)) (friction cfg);
             q = p\<lparr>oldx := px p, oldy := py p\<rparr>;
             q = q\<lparr>px := js_add (px q) vx\<rparr>;
             q = q\<lparr>py := js_add (py q) (js_add vy (gravity cfg))\<rparr>
         in if js_gt (py q) (Fin 300) then
              (let q = q\<lparr>py := Fin 300\<rparr>
               in q\<lparr>oldy := js_add (py q) vy\<rparr>)
            else q))"

definition updatePhysics_part000 :: "'a cloth \<Rightarrow> error + 'a cloth" where
  "updatePhysics_part000 s =
     (case relaxLoop (iterations_part000 (config s)) (config s) (constraints s) (particles s) of
        Inl e \<Rightarrow> Inl e
      | Inr ps \<Rightarrow> Inr (s\<lparr>particles := map (integrateParticle_part000 (config s)) ps\<rparr>))"

section \<open>The cut: lineIntersect and applyCut\<close>

text \<open>
  \<open>lineIntersect\<close> decides by comparisons at the edge of its range (a denominator that is
  zero, a parameter that is 0 or 1), where the rounding of the products decides the
  outcome. Its arithmetic is therefore the arithmetic of binary64: the exact result of
  each operation, rounded to the nearest double, ties to the even significand, with the
  subnormal range below \<open>2 ^ - 1022\<close> and overflow to an infinity from \<open>2 ^ 1024\<close> on.
\<close>

definition round_half_even :: "real \<Rightarrow> int" where
  "round_half_even m =
     (let f = \<lfloor>m\<rfloor>;
          d = m - of_int f
      in if d < 1 / 2 then f
         else if 1 / 2 < d then f + 1
         else if even f then f else f + 1)"

definition to_double :: "real \<Rightarrow> num" where
  "to_double x =
     (if x = 0 then Fin 0
      else
        (let e = max \<lfloor>log 2 \<bar>x\<bar>\<rfloor> (- 1022);
             ulp = 2 powr of_int (e - 52);
             y = of_int (round_half_even (x / ulp)) * ulp
         in if 2 ^ 1024 \<le> \<bar>y\<bar> then (if 0 < x then PInf else NInf) else Fin y))"

text \<open>The exponent and the significand that \<open>to_double\<close> computes.\<close>

definition binade :: "real \<Rightarrow> int" where
  "binade x = max \<lfloor>log 2 \<bar>x\<bar>\<rfloor> (- 1022)"


fun js_round :: "num \<Rightarrow> num" where
  "js_round (Fin a) = to_double a"
| "js_round PInf = PInf"
| "js_round NInf = NInf"
| "js_round NaN = NaN"

definition fl_sub :: "num \<Rightarrow> num \<Rightarrow> num" where
  "fl_sub a b = js_round (js_sub a b)"

definition fl_mul :: "num \<Rightarrow> num \<Rightarrow> num" where
  "fl_mul a b = js_round (js_mul a b)"

definition fl_div :: "num \<Rightarrow> num \<Rightarrow> num" where
  "fl_div a b = js_round (js_div a b)"

definition lineIntersect ::
  "num \<Rightarrow> num \<Rightarrow> num \<Rightarrow> num \<Rightarrow> num \<Rightarrow> num \<Rightarrow> num \<Rightarrow> num \<Rightarrow> bool" where
  "lineIntersect x1 y1 x2 y2 x3 y3 x4 y4 =
     (let denom = fl_sub (fl_mul (fl_sub y4 y3) (fl_sub x2 x1))
                         (fl_mul (fl_sub x4 x3) (fl_sub y2 y1))
      in if js_eq denom (Fin 0) then False
         else
           (let ua = fl_div (fl_sub (fl_mul (fl_sub x4 x3) (fl_sub y1 y3))
                                    (fl_mul (fl_sub y4 y3) (fl_sub x1 x3))) denom;
                ub = fl_div (fl_sub (fl_mul (fl_sub x2 x1) (fl_sub y1 y3))
                                    (fl_mul (fl_sub y2 y1) (fl_sub x1 x3))) denom
            in js_ge ua (Fin 0) \<and> js_le ua (Fin 1) \<and> js_ge ub (Fin 0) \<and> js_le ub (Fin 1)))"

text \<open>The body of the loop of \<open>applyCut\<close> over the constraints of one cloth.\<close>

definition cutConstraint :: "mouse \<Rightarrow> particle list \<Rightarrow> constraint \<Rightarrow> error + constraint" where
  "cutConstraint m ps c =
     (if \<not> active c then Inr c
      else if p1 c < length ps \<and> p2 c < length ps then
        (let a = ps ! p1 c;
             b = ps ! p2 c
         in if lineIntersect (prevX m) (prevY m) (mx m) (my m) (px a) (py a) (px b) (py b)
            then Inr (c\<lparr>active := False\<rparr>)
            else Inr c)
      else Inl TypeError)"

fun cutConstraints ::
  "mouse \<Rightarrow> particle list \<Rightarrow> constraint list \<Rightarrow> error + constraint list" where
  "cutConstraints m ps [] = Inr []"
| "cutConstraints m ps (c # cs) =
     (case cutConstraint m ps c of
        Inl e \<Rightarrow> Inl e
      | Inr c1 \<Rightarrow>
          (case cutConstraints m ps cs of
             Inl e \<Rightarrow> Inl e
           | Inr cs1 \<Rightarrow> Inr (c1 # cs1)))"

definition applyCut_cloth :: "mouse \<Rightarrow> 'a cloth \<Rightarrow> error + 'a cloth" where
  "applyCut_cloth m s =
     (case cutConstraints m (particles s) (constraints s) of
        Inl e \<Rightarrow> Inl e
      | Inr cs \<Rightarrow> Inr (s\<lparr>constraints := cs\<rparr>))"

text \<open>\<open>applyCut\<close> itself: \<open>cloths.forEach\<close>.\<close>

fun applyCut :: "mouse \<Rightarrow> 'a cloth list \<Rightarrow> error + 'a cloth list" where
  "applyCut m [] = Inr []"
| "applyCut m (s # ss) =
     (case applyCut_cloth m s of
        Inl e \<Rightarrow> Inl e
      | Inr s1 \<Rightarrow>
          (case applyCut m ss of
             Inl e \<Rightarrow> Inl e
           | Inr ss1 \<Rightarrow> Inr (s1 # ss1)))"

section \<open>The wind: applyWind\<close>

text \<open>The falloff \<open>(range - dist) / range\<close> of the wind.\<close>

definition windForce :: "num \<Rightarrow> num \<Rightarrow> num" where
  "windForce r d = js_div (js_sub r d) r"

definition windParticle :: "mouse \<Rightarrow> 'a config_scheme \<Rightarrow> particle \<Rightarrow> particle" where
  "windParticle m cfg p =
     (let range = Fin 80;
          dx = js_sub (px p) (mx m);
          dy = js_sub (py p) (my m);
          dist = js_sqrt (js_add (js_mul dx dx) (js_mul dy dy))
      in if js_lt dist range then
           (let force = windForce range dist
            in if \<not> pinned p then
                 (let strength = js_mul force (mouseInfluence cfg)
                  in p\<lparr>px := js_add (px p) (js_mul dx strength),
                        py := js_add (py p) (js_mul dy strength)\<rparr>)
               else p)
         else p)"

definition applyWind :: "mouse \<Rightarrow> 'a cloth \<Rightarrow> 'a cloth" where
  "applyWind m s = s\<lparr>particles := map (windParticle m (config s)) (particles s)\<rparr>"

section \<open>Cloth.init and Cloth.addConstraint\<close>

text \<open>
  \<open>init\<close> empties the two arrays, pushes the particles row by row, then the constraints
  cell by cell, and ends with \<open>updateGeometry\<close>, which copies positions and indices to
  the renderer and is left out here.
\<close>

definition getIdx :: "nat \<Rightarrow> nat \<Rightarrow> nat \<Rightarrow> nat" where
  "getIdx nx x y = y * nx + x"

definition newParticle :: "num \<Rightarrow> num \<Rightarrow> num \<Rightarrow> num \<Rightarrow> nat \<Rightarrow> nat \<Rightarrow> particle" where
  "newParticle off startY gapX gapY x y =
     \<lparr>px = js_add off (js_mul (Fin (real x)) gapX),
      py = js_add startY (js_mul (Fin (real y)) gapY),
      oldx = js_add off (js_mul (Fin (real x)) gapX),
      oldy = js_add startY (js_mul (Fin (real y)) gapY),
      pinned = (y = 0)\<rparr>"

text \<open>The two nested loops that push the particles, row by row.\<close>

definition genParticles :: "num \<Rightarrow> num \<Rightarrow> num \<Rightarrow> num \<Rightarrow> nat \<Rightarrow> nat \<Rightarrow> particle list" where
  "genParticles off startY gapX gapY nx ny =
     concat (map (\<lambda>y. map (\<lambda>x. newParticle off startY gapX gapY x y) [0..<nx]) [0..<ny])"

definition addConstraint ::
  "particle list \<Rightarrow> nat \<Rightarrow> nat \<Rightarrow> constraint list \<Rightarrow> error + constraint list" where
  "addConstraint ps p1Idx p2Idx cs =
     (if p1Idx < length ps \<and> p2Idx < length ps then
        (let a = ps ! p1Idx;
             b = ps ! p2Idx;
             dist = js_hypot (js_sub (px a) (px b)) (js_sub (py a) (py b))
         in Inr (cs @ [\<lparr>p1 = p1Idx, p2 = p2Idx, length_c = dist, active = True\<rparr>]))
      else Inl TypeError)"

text \<open>A counting loop whose body can throw.\<close>

fun for_loop :: "nat list \<Rightarrow> (nat \<Rightarrow> 's \<Rightarrow> error + 's) \<Rightarrow> 's \<Rightarrow> error + 's" where
  "for_loop [] body s = Inr s"
| "for_loop (i # is) body s =
     (case body i s of
        Inl e \<Rightarrow> Inl e
      | Inr s1 \<Rightarrow> for_loop is body s1)"

text \<open>The body of the inner loop that generates the constraints, at column \<open>x\<close> of row \<open>y\<close>.\<close>

definition cellConstraints ::
  "particle list \<Rightarrow> nat \<Rightarrow> nat \<Rightarrow> nat \<Rightarrow> nat \<Rightarrow> constraint list \<Rightarrow> error + constraint list" where
  "cellConstraints ps nx ny y x cs =
     (let i = getIdx nx x y
      in case (if int x < int nx - 1 then addConstraint ps i (getIdx nx (x + 1) y) cs
               else Inr cs) of
           Inl e \<Rightarrow> Inl e
         | Inr cs1 \<Rightarrow>
             (if int y < int ny - 1 then addConstraint ps i (getIdx nx x (y + 1)) cs1
              else Inr cs1))"

definition genConstraints :: "particle list \<Rightarrow> nat \<Rightarrow> nat \<Rightarrow> error + constraint list" where
  "genConstraints ps nx ny =
     for_loop [0..<ny] (\<lambda>y. for_loop [0..<nx] (cellConstraints ps nx ny y)) []"

definition init :: "'a cloth \<Rightarrow> error + 'a cloth" where
  "init s =
     (let cfg = config s;
          startY = Fin (- 250);
          gapX = js_div CLOTH_WIDTH (Fin (real (particlesX cfg)));
          gapY = js_div CLOTH_HEIGHT (Fin (real (particlesY cfg)));
          ps = genParticles (offsetX s) startY gapX gapY (particlesX cfg) (particlesY cfg)
      in case genConstraints ps (particlesX cfg) (particlesY cfg) of
           Inl e \<Rightarrow> Inl e
         | Inr cs \<Rightarrow> Inr (s\<lparr>particles := ps, constraints := cs\<rparr>))"

section \<open>Sequences of calls\<close>

text \<open>
  The three operations that the driver applies to a cloth between two resets: a physics
  step, a cut along the last pointer movement, and a wind impulse at the pointer.
\<close>

datatype call = Step | CutAlongSegment mouse | ApplyRadialImpulse mouse

fun do_call :: "call \<Rightarrow> 'a cloth \<Rightarrow> error + 'a cloth" where
  "do_call Step s = updatePhysics s"
| "do_call (CutAlongSegment m) s = applyCut_cloth m s"
| "do_call (ApplyRadialImpulse m) s = Inr (applyWind m s)"

fun do_calls :: "call list \<Rightarrow> 'a cloth \<Rightarrow> error + 'a cloth" where
  "do_calls [] s = Inr s"
| "do_calls (c # cs) s =
     (case do_call c s of
        Inl e \<Rightarrow> Inl e
      | Inr s1 \<Rightarrow> do_calls cs s1)"

text \<open>Every constraint of the cloth names two particles of the cloth.\<close>

definition indices_ok :: "'a cloth \<Rightarrow> bool" where
  "indices_ok s =
     list_all (\<lambda>c. p1 c < length (particles s) \<and> p2 c < length (particles s)) (constraints s)"

section \<open>Relations between states, and example states\<close>

text \<open>What relaxation, integration and the wind keep of a particle array.\<close>

definition pins_kept :: "particle list \<Rightarrow> particle list \<Rightarrow> bool" where
  "pins_kept ps qs =
     (length qs = length ps \<and>
      (\<forall>i<length ps. pinned (qs ! i) = pinned (ps ! i) \<and> (pinned (ps ! i) \<longrightarrow> qs ! i = ps ! i)))"

text \<open>What a cut keeps of a constraint array.\<close>

definition cut_kept :: "constraint list \<Rightarrow> constraint list \<Rightarrow> bool" where
  "cut_kept cs ds =
     list_all2 (\<lambda>c d. p1 d = p1 c \<and> p2 d = p2 c \<and> length_c d = length_c c \<and>
                       (active d \<longrightarrow> active c)) cs ds"

text \<open>What a call keeps: the pinned particles, and the constraints up to cuts.\<close>

definition call_kept :: "'a cloth \<Rightarrow> 'a cloth \<Rightarrow> bool" where
  "call_kept s t =
     (pins_kept (particles s) (particles t) \<and> cut_kept (constraints s) (constraints t) \<and>
      config t = config s \<and> offsetX t = offsetX s)"

text \<open>The four materials of \<open>MATERIALS\<close>.\<close>

definition DENIM :: config where
  "DENIM = \<lparr>name = ''Denim'', color = 6719692, friction = Fin 0.9, gravity = Fin 0.35,
            stiffness = Fin 1, particlesX = 15, particlesY = 20, mouseInfluence = Fin 0.05\<rparr>"

definition LINEN :: config where
  "LINEN = \<lparr>name = ''Linen'', color = 14540253, friction = Fin 0.96, gravity = Fin 0.25,
            stiffness = Fin 0.9, particlesX = 25, particlesY = 35, mouseInfluence = Fin 0.1\<rparr>"

definition SILK :: config where
  "SILK = \<lparr>name = ''Silk'', color = 16737996, friction = Fin 0.995, gravity = Fin 0.1,
           stiffness = Fin 1, particlesX = 45, particlesY = 60, mouseInfluence = Fin 0.2\<rparr>"

definition ULTRA_SILK :: config where
  "ULTRA_SILK = \<lparr>name = ''Ultra Silk'', color = 10040012, friction = Fin 0.998,
                 gravity = Fin 0.06, stiffness = Fin 0.95, particlesX = 60, particlesY = 80,
                 mouseInfluence = Fin 0.3\<rparr>"

text \<open>Two free particles at one point, joined by an active constraint.\<close>

definition coincident_cloth :: "unit cloth" where
  "coincident_cloth =
     \<lparr>config = DENIM, offsetX = Fin 0,
      particles = [\<lparr>px = Fin 0, py = Fin 0, oldx = Fin 0, oldy = Fin 0, pinned = False\<rparr>,
                   \<lparr>px = Fin 0, py = Fin 0, oldx = Fin 0, oldy = Fin 0, pinned = False\<rparr>],
      constraints = [\<lparr>p1 = 0, p2 = 1, length_c = Fin 10, active = True\<rparr>]\<rparr>"

text \<open>A pinned particle with a free one hanging from it, the constraint intact or cut.\<close>

definition hanging_pair :: "unit cloth" where
  "hanging_pair =
     \<lparr>config = DENIM, offsetX = Fin 0,
      particles = [\<lparr>px = Fin 0, py = Fin 0, oldx = Fin 0, oldy = Fin 0, pinned = True\<rparr>,
                   \<lparr>px = Fin 0, py = Fin 10, oldx = Fin 0, oldy = Fin 10, pinned = False\<rparr>],
      constraints = [\<lparr>p1 = 0, p2 = 1, length_c = Fin 10, active = True\<rparr>]\<rparr>"

definition severed_pair :: "unit cloth" where
  "severed_pair =
     hanging_pair\<lparr>constraints := [\<lparr>p1 = 0, p2 = 1, length_c = Fin 10, active = False\<rparr>]\<rparr>"

definition pointer :: mouse where
  "pointer = \<lparr>mx = Fin 3, my = Fin 4, prevX = Fin (- 3), prevY = Fin 4,
              isDown = True, isRight = True\<rparr>"

definition some_calls :: "call list" where
  "some_calls = [Step, ApplyRadialImpulse pointer, CutAlongSegment pointer, Step]"

text \<open>A free particle falling through the floor, and a free particle near the pointer.\<close>

definition falling_cloth :: "unit cloth" where
  "falling_cloth =
     \<lparr>config = DENIM, offsetX = Fin 0,
      particles = [\<lparr>px = Fin 5, py = Fin 299, oldx = Fin 3, oldy = Fin 289, pinned = False\<rparr>],
      constraints = []\<rparr>"


definition free_particle :: particle where
  "free_particle = \<lparr>px = Fin 6, py = Fin 8, oldx = Fin 6, oldy = Fin 8, pinned = False\<rparr>"






text \<open>
  The material profile of the specification: the configuration object with one more
  property, the solver iteration count.
\<close>

record profile = config +
  profile_iterations :: nat

definition then_pass ::
  "'a config_scheme \<Rightarrow> constraint list \<Rightarrow> error + particle list \<Rightarrow> error + particle list" where
  "then_pass cfg cs r = (case r of Inl e \<Rightarrow> Inl e | Inr ps \<Rightarrow> relaxPass cfg cs ps)"

definition denim_seven :: profile where
  "denim_seven = config.extend DENIM (profile.fields 7)"

definition stretched_pair :: "particle list" where
  "stretched_pair =
     [\<lparr>px = Fin 0, py = Fin 0, oldx = Fin 0, oldy = Fin 0, pinned = True\<rparr>,
      \<lparr>px = Fin 2, py = Fin 0, oldx = Fin 2, oldy = Fin 0, pinned = False\<rparr>]"

definition unit_edge :: "constraint list" where
  "unit_edge = [\<lparr>p1 = 0, p2 = 1, length_c = Fin 1, active = True\<rparr>]"

text \<open>
  The grid that \<open>init\<close> builds, written as lists: the constraint that
  \<open>addConstraint\<close> pushes, the constraints of one cell (right, then bottom), and the
  cells row by row.
\<close>

definition edge :: "particle list \<Rightarrow> nat \<Rightarrow> nat \<Rightarrow> constraint" where
  "edge ps i j =
     \<lparr>p1 = i, p2 = j,
      length_c = js_hypot (js_sub (px (ps ! i)) (px (ps ! j))) (js_sub (py (ps ! i)) (py (ps ! j))),
      active = True\<rparr>"

definition cell_edges :: "particle list \<Rightarrow> nat \<Rightarrow> nat \<Rightarrow> nat \<Rightarrow> nat \<Rightarrow> constraint list" where
  "cell_edges ps nx ny y x =
     (if x + 1 < nx then [edge ps (getIdx nx x y) (getIdx nx (x + 1) y)] else []) @
     (if y + 1 < ny then [edge ps (getIdx nx x y) (getIdx nx x (y + 1))] else [])"

definition grid_edges :: "particle list \<Rightarrow> nat \<Rightarrow> nat \<Rightarrow> constraint list" where
  "grid_edges ps nx ny =
     concat (map (\<lambda>y. concat (map (cell_edges ps nx ny y) [0..<nx])) [0..<ny])"

text \<open>The spacing and the particles that \<open>init\<close> computes from the configuration.\<close>

definition init_gapX :: "'a cloth \<Rightarrow> num" where
  "init_gapX s = js_div CLOTH_WIDTH (Fin (real (particlesX (config s))))"

definition init_gapY :: "'a cloth \<Rightarrow> num" where
  "init_gapY s = js_div CLOTH_HEIGHT (Fin (real (particlesY (config s))))"

definition init_particles :: "'a cloth \<Rightarrow> particle list" where
  "init_particles s =
     genParticles (offsetX s) (Fin (- 250)) (init_gapX s) (init_gapY s)
       (particlesX (config s)) (particlesY (config s))"

text \<open>A cloth of two rows and two columns, before its first \<open>init\<close>.\<close>

definition two_by_two :: "unit cloth" where
  "two_by_two =
     \<lparr>config = DENIM\<lparr>particlesX := 2, particlesY := 2\<rparr>, offsetX = Fin 0,
      particles = [], constraints = []\<rparr>"

section \<open>What the operations keep\<close>

lemma pins_kept_refl: "pins_kept ps ps"
  by (simp add: pins_kept_def)

lemma pins_kept_trans: "pins_kept ps qs \<Longrightarrow> pins_kept qs rs \<Longrightarrow> pins_kept ps rs"
  by (auto simp: pins_kept_def)

lemma pins_kept_update:
  assumes "i < length ps" "\<not> pinned (ps ! i)" "\<not> pinned q"
  shows "pins_kept ps (ps[i := q])"
  using assms by (auto simp: pins_kept_def nth_list_update)

lemma relaxConstraint_pins:
  assumes "relaxConstraint cfg c ps = Inr qs"
  shows "pins_kept ps qs"
  using assms
  by (auto simp: relaxConstraint_def Let_def pins_kept_def nth_list_update split: if_splits)

lemma relaxConstraint_total:
  "p1 c < length ps \<Longrightarrow> p2 c < length ps \<Longrightarrow> \<exists>qs. relaxConstraint cfg c ps = Inr qs"
  by (simp add: relaxConstraint_def Let_def)

lemma relaxPass_pins: "relaxPass cfg cs ps = Inr qs \<Longrightarrow> pins_kept ps qs"
proof (induction cs arbitrary: ps)
  case Nil
  then show ?case by (simp add: pins_kept_refl)
next
  case (Cons c cs)
  then show ?case
    by (auto split: sum.splits dest: relaxConstraint_pins intro: pins_kept_trans)
qed

lemma relaxPass_total:
  "list_all (\<lambda>c. p1 c < length ps \<and> p2 c < length ps) cs \<Longrightarrow> \<exists>qs. relaxPass cfg cs ps = Inr qs"
proof (induction cs arbitrary: ps)
  case Nil
  then show ?case by simp
next
  case (Cons c cs)
  then obtain ps1 where r: "relaxConstraint cfg c ps = Inr ps1"
    using relaxConstraint_total [of c ps cfg] by auto
  then have "length ps1 = length ps"
    using relaxConstraint_pins [OF r] by (simp add: pins_kept_def)
  with Cons r show ?case by auto
qed

lemma relaxLoop_pins: "relaxLoop k cfg cs ps = Inr qs \<Longrightarrow> pins_kept ps qs"
proof (induction k arbitrary: ps)
  case 0
  then show ?case by (simp add: pins_kept_refl)
next
  case (Suc k)
  then show ?case
    by (auto split: sum.splits dest: relaxPass_pins intro: pins_kept_trans)
qed

lemma relaxLoop_total:
  "list_all (\<lambda>c. p1 c < length ps \<and> p2 c < length ps) cs \<Longrightarrow> \<exists>qs. relaxLoop k cfg cs ps = Inr qs"
proof (induction k arbitrary: ps)
  case 0
  then show ?case by simp
next
  case (Suc k)
  then obtain ps1 where r: "relaxPass cfg cs ps = Inr ps1"
    using relaxPass_total [of ps cs cfg] by auto
  then have "length ps1 = length ps"
    using relaxPass_pins [OF r] by (simp add: pins_kept_def)
  with Suc r show ?case by auto
qed

lemma integrateParticle_pinned: "pinned (integrateParticle cfg p) = pinned p"
  by (simp add: integrateParticle_def Let_def)

lemma integrateParticle_fixed: "pinned p \<Longrightarrow> integrateParticle cfg p = p"
  by (simp add: integrateParticle_def)

lemma windParticle_pinned: "pinned (windParticle m cfg p) = pinned p"
  by (simp add: windParticle_def Let_def)

lemma windParticle_fixed: "pinned p \<Longrightarrow> windParticle m cfg p = p"
  by (simp add: windParticle_def Let_def)

lemma pins_kept_map:
  assumes "\<And>p. pinned (f p) = pinned p" "\<And>p. pinned p \<Longrightarrow> f p = p"
  shows "pins_kept ps (map f ps)"
  using assms by (simp add: pins_kept_def)

lemma cut_kept_refl: "cut_kept cs cs"
  by (simp add: cut_kept_def list_all2_refl)

lemma cut_kept_trans: "cut_kept cs ds \<Longrightarrow> cut_kept ds es \<Longrightarrow> cut_kept cs es"
  by (auto simp: cut_kept_def list_all2_conv_all_nth)

lemma cutConstraint_kept:
  "cutConstraint m ps c = Inr d \<Longrightarrow>
     p1 d = p1 c \<and> p2 d = p2 c \<and> length_c d = length_c c \<and> (active d \<longrightarrow> active c)"
  by (auto simp: cutConstraint_def Let_def split: if_splits)

lemma cutConstraints_kept: "cutConstraints m ps cs = Inr ds \<Longrightarrow> cut_kept cs ds"
proof (induction cs arbitrary: ds)
  case Nil
  then show ?case by (simp add: cut_kept_def)
next
  case (Cons c cs)
  then show ?case
    by (auto simp: cut_kept_def split: sum.splits dest: cutConstraint_kept)
qed

lemma cutConstraints_total:
  "list_all (\<lambda>c. p1 c < length ps \<and> p2 c < length ps) cs \<Longrightarrow> \<exists>ds. cutConstraints m ps cs = Inr ds"
proof (induction cs)
  case Nil
  then show ?case by simp
next
  case (Cons c cs)
  then show ?case by (auto simp: cutConstraint_def Let_def)
qed

lemma cut_kept_indices:
  assumes "cut_kept cs ds" "list_all (\<lambda>c. p1 c < n \<and> p2 c < n) cs"
  shows "list_all (\<lambda>c. p1 c < n \<and> p2 c < n) ds"
  using assms unfolding cut_kept_def
  by (induction cs ds rule: list_all2_induct) auto

lemma call_kept_refl: "call_kept s s"
  by (simp add: call_kept_def pins_kept_refl cut_kept_refl)

lemma call_kept_trans: "call_kept s t \<Longrightarrow> call_kept t u \<Longrightarrow> call_kept s u"
  by (auto simp: call_kept_def intro: pins_kept_trans cut_kept_trans)

lemma call_kept_indices: "call_kept s t \<Longrightarrow> indices_ok s \<Longrightarrow> indices_ok t"
  unfolding call_kept_def indices_ok_def
  using cut_kept_indices [of "constraints s" "constraints t" "length (particles s)"]
  by (simp add: pins_kept_def)

lemma updatePhysics_result:
  assumes "updatePhysics s = Inr t"
  shows "constraints t = constraints s \<and> config t = config s \<and> offsetX t = offsetX s \<and>
         pins_kept (particles s) (particles t)"
proof -
  from assms obtain ps where
    r: "relaxLoop (iterations (config s)) (config s) (constraints s) (particles s) = Inr ps"
    and t: "t = s\<lparr>particles := map (integrateParticle (config s)) ps\<rparr>"
    by (auto simp: updatePhysics_def split: sum.splits)
  have "pins_kept (particles s) ps" using r by (rule relaxLoop_pins)
  moreover have "pins_kept ps (map (integrateParticle (config s)) ps)"
    by (rule pins_kept_map) (simp_all add: integrateParticle_pinned integrateParticle_fixed)
  ultimately have "pins_kept (particles s) (particles t)"
    using t by (auto intro: pins_kept_trans)
  with t show ?thesis by simp
qed

lemma updatePhysics_total: "indices_ok s \<Longrightarrow> \<exists>t. updatePhysics s = Inr t"
  using relaxLoop_total [of "particles s" "constraints s" "iterations (config s)" "config s"]
  by (auto simp: updatePhysics_def indices_ok_def)

lemma applyCut_cloth_total: "indices_ok s \<Longrightarrow> \<exists>t. applyCut_cloth m s = Inr t"
  using cutConstraints_total [of "particles s" "constraints s" m]
  by (auto simp: applyCut_cloth_def indices_ok_def)

lemma do_call_kept: "do_call c s = Inr t \<Longrightarrow> call_kept s t"
proof (cases c)
  case Step
  assume "do_call c s = Inr t"
  with Step show ?thesis
    using updatePhysics_result [of s t] by (simp add: call_kept_def cut_kept_refl)
next
  case (CutAlongSegment m)
  assume "do_call c s = Inr t"
  with CutAlongSegment show ?thesis
    by (auto simp: applyCut_cloth_def call_kept_def pins_kept_refl
        split: sum.splits dest: cutConstraints_kept)
next
  case (ApplyRadialImpulse m)
  assume "do_call c s = Inr t"
  with ApplyRadialImpulse have "t = applyWind m s" by simp
  then show ?thesis
    by (simp add: applyWind_def call_kept_def cut_kept_refl pins_kept_map
        windParticle_pinned windParticle_fixed)
qed

lemma do_call_total: "indices_ok s \<Longrightarrow> \<exists>t. do_call c s = Inr t"
  by (cases c) (simp_all add: updatePhysics_total applyCut_cloth_total)

lemma do_calls_kept: "do_calls cs s = Inr t \<Longrightarrow> call_kept s t"
proof (induction cs arbitrary: s)
  case Nil
  then show ?case by (simp add: call_kept_refl)
next
  case (Cons c cs)
  then show ?case
    by (auto split: sum.splits dest: do_call_kept intro: call_kept_trans)
qed

lemma do_calls_total: "indices_ok s \<Longrightarrow> \<exists>t. do_calls cs s = Inr t"
proof (induction cs arbitrary: s)
  case Nil
  then show ?case by simp
next
  case (Cons c cs)
  then obtain s1 where c: "do_call c s = Inr s1"
    using do_call_total [of s c] by auto
  then have "indices_ok s1"
    using Cons.prems by (auto dest: do_call_kept call_kept_indices)
  with Cons.IH [of s1] c show ?case by auto
qed

lemma relaxPass_filter: "relaxPass cfg cs ps = relaxPass cfg (filter active cs) ps"
proof (induction cs arbitrary: ps)
  case Nil
  show ?case by simp
next
  case (Cons c cs)
  show ?case
  proof (cases "active c")
    case True
    with Cons.IH show ?thesis by (simp split: sum.splits)
  next
    case False
    then have "relaxConstraint cfg c ps = Inr ps" by (simp add: relaxConstraint_def)
    with False Cons.IH show ?thesis by simp
  qed
qed


section \<open>The frame of a physics step\<close>

text \<open>
  Claim C10. A physics step changes particle positions and previous positions only: when
  it returns, the constraint array (indices, rest lengths, active flags, count) is the one
  it started from, and so are the number of particles and every pinned flag. It returns
  whenever every constraint names two particles of the cloth.
\<close>

theorem updatePhysics_frame:
  "(indices_ok s \<longrightarrow> (\<exists>t. updatePhysics s = Inr t)) \<and>
   (\<forall>t. updatePhysics s = Inr t \<longrightarrow>
      constraints t = constraints s \<and>
      length (particles t) = length (particles s) \<and>
      map pinned (particles t) = map pinned (particles s))"
proof (intro conjI allI impI)
  assume "indices_ok s"
  then show "\<exists>t. updatePhysics s = Inr t" by (rule updatePhysics_total)
next
  fix t assume "updatePhysics s = Inr t"
  then show "constraints t = constraints s" by (simp add: updatePhysics_result)
next
  fix t assume "updatePhysics s = Inr t"
  then show "length (particles t) = length (particles s)"
    using updatePhysics_result [of s t] by (simp add: pins_kept_def)
next
  fix t assume "updatePhysics s = Inr t"
  then have "pins_kept (particles s) (particles t)" by (simp add: updatePhysics_result)
  then show "map pinned (particles t) = map pinned (particles s)"
    by (auto simp: pins_kept_def intro: nth_equalityI)
qed

theorem updatePhysics_frame_witness:
  "indices_ok hanging_pair \<and>
   (\<exists>t. updatePhysics hanging_pair = Inr t \<and>
        constraints t = constraints hanging_pair \<and>
        length (particles t) = 2 \<and>
        map pinned (particles t) = [True, False])"
proof -
  have ok: "indices_ok hanging_pair"
    by (simp add: indices_ok_def hanging_pair_def)
  with updatePhysics_frame [of hanging_pair] obtain t where
    "updatePhysics hanging_pair = Inr t" "constraints t = constraints hanging_pair"
    "length (particles t) = length (particles hanging_pair)"
    "map pinned (particles t) = map pinned (particles hanging_pair)"
    by blast
  with ok show ?thesis by (simp add: hanging_pair_def)
qed

section \<open>Pinned particles\<close>

text \<open>
  Claim C2. Through any sequence of physics steps, cuts and wind impulses, from any state
  of the cloth, a particle that is pinned stays pinned at exactly the position it had at
  the start (in particular the position that \<open>init\<close> gave it): relaxation, integration
  and the wind are all gated by the pinned flag, and the cut writes no particle. The whole
  sequence returns whenever every constraint names two particles of the cloth.
\<close>

theorem pinned_particle_fixed:
  "(indices_ok s \<longrightarrow> (\<exists>t. do_calls cs s = Inr t)) \<and>
   (\<forall>t. do_calls cs s = Inr t \<longrightarrow>
      length (particles t) = length (particles s) \<and>
      (\<forall>i<length (particles s). pinned (particles s ! i) \<longrightarrow>
         pinned (particles t ! i) \<and>
         px (particles t ! i) = px (particles s ! i) \<and>
         py (particles t ! i) = py (particles s ! i)))"
proof -
  have returns: "\<exists>t. do_calls cs s = Inr t" if "indices_ok s"
    using that by (rule do_calls_total)
  have kept: "length (particles t) = length (particles s) \<and>
      (\<forall>i<length (particles s). pinned (particles s ! i) \<longrightarrow>
         pinned (particles t ! i) \<and>
         px (particles t ! i) = px (particles s ! i) \<and>
         py (particles t ! i) = py (particles s ! i))"
    if "do_calls cs s = Inr t" for t
  proof -
    from that have "pins_kept (particles s) (particles t)"
      using do_calls_kept [of cs s t] by (simp add: call_kept_def)
    then show ?thesis by (auto simp: pins_kept_def)
  qed
  from returns kept show ?thesis by blast
qed

theorem pinned_particle_fixed_witness:
  "indices_ok hanging_pair \<and> pinned (particles hanging_pair ! 0) \<and>
   (\<exists>t. do_calls some_calls hanging_pair = Inr t \<and>
        pinned (particles t ! 0) \<and>
        px (particles t ! 0) = Fin 0 \<and> py (particles t ! 0) = Fin 0)"
proof -
  have ok: "indices_ok hanging_pair"
    by (simp add: indices_ok_def hanging_pair_def)
  have pin: "0 < length (particles hanging_pair) \<and> pinned (particles hanging_pair ! 0)"
    by (simp add: hanging_pair_def)
  note inst = pinned_particle_fixed [of hanging_pair some_calls]
  from inst ok obtain t where t: "do_calls some_calls hanging_pair = Inr t"
    by blast
  with inst pin have "pinned (particles t ! 0)"
    "px (particles t ! 0) = px (particles hanging_pair ! 0)"
    "py (particles t ! 0) = py (particles hanging_pair ! 0)"
    by blast+
  with ok pin t show ?thesis by (simp add: hanging_pair_def)
qed

section \<open>Cuts are permanent\<close>

text \<open>
  Claim C3. Through any sequence of physics steps, cuts and wind impulses the number of
  constraints stays the same and a constraint that is inactive stays inactive; an inactive
  constraint leaves the particles as they are, so that a relaxation pass is the pass over
  the active constraints alone.
\<close>

theorem inactive_stays_inactive:
  "(indices_ok s \<longrightarrow> (\<exists>t. do_calls cs s = Inr t)) \<and>
   (\<forall>t. do_calls cs s = Inr t \<longrightarrow>
      length (constraints t) = length (constraints s) \<and>
      (\<forall>i<length (constraints s). \<not> active (constraints s ! i) \<longrightarrow>
         \<not> active (constraints t ! i))) \<and>
   (\<not> active c \<longrightarrow> relaxConstraint cfg c ps = Inr ps) \<and>
   relaxPass cfg ds ps = relaxPass cfg (filter active ds) ps"
proof (intro conjI allI impI)
  assume "indices_ok s"
  then show "\<exists>t. do_calls cs s = Inr t" by (rule do_calls_total)
next
  fix t assume "do_calls cs s = Inr t"
  then have "cut_kept (constraints s) (constraints t)"
    using do_calls_kept [of cs s t] by (simp add: call_kept_def)
  then show "length (constraints t) = length (constraints s)"
    by (simp add: cut_kept_def list_all2_lengthD)
next
  fix t i
  assume "do_calls cs s = Inr t" "i < length (constraints s)" "\<not> active (constraints s ! i)"
  moreover from this have "cut_kept (constraints s) (constraints t)"
    using do_calls_kept [of cs s t] by (simp add: call_kept_def)
  ultimately show "\<not> active (constraints t ! i)"
    by (auto simp: cut_kept_def list_all2_conv_all_nth)
next
  assume "\<not> active c"
  then show "relaxConstraint cfg c ps = Inr ps" by (simp add: relaxConstraint_def)
next
  show "relaxPass cfg ds ps = relaxPass cfg (filter active ds) ps" by (rule relaxPass_filter)
qed

theorem inactive_stays_inactive_witness:
  "indices_ok severed_pair \<and> \<not> active (constraints severed_pair ! 0) \<and>
   (\<exists>t. do_calls some_calls severed_pair = Inr t \<and>
        length (constraints t) = 1 \<and> \<not> active (constraints t ! 0)) \<and>
   relaxConstraint DENIM (constraints severed_pair ! 0) (particles severed_pair) =
     Inr (particles severed_pair)"
proof -
  have ok: "indices_ok severed_pair"
    by (simp add: indices_ok_def severed_pair_def hanging_pair_def)
  have off: "0 < length (constraints severed_pair) \<and> \<not> active (constraints severed_pair ! 0)"
    by (simp add: severed_pair_def)
  note inst = inactive_stays_inactive [of severed_pair some_calls "constraints severed_pair ! 0"
      DENIM "particles severed_pair" "[]"]
  from inst ok obtain t where t: "do_calls some_calls severed_pair = Inr t"
    by blast
  with inst off have "length (constraints t) = length (constraints severed_pair)"
    and "\<not> active (constraints t ! 0)"
    by blast+
  moreover from inst off
  have "relaxConstraint DENIM (constraints severed_pair ! 0) (particles severed_pair) =
          Inr (particles severed_pair)"
    by blast
  ultimately show ?thesis
    using ok off t by (simp add: severed_pair_def)
qed

section \<open>Coincident particles\<close>

lemma inf_of_sign_cases: "inf_of_sign s = PInf \<or> inf_of_sign s = NInf \<or> inf_of_sign s = NaN"
  by (simp add: inf_of_sign_def)

lemma js_mul_zero_nonfinite: "\<not> finite_num a \<Longrightarrow> js_mul (Fin 0) a = NaN"
  by (cases a) (simp_all add: inf_of_sign_def)

lemma js_mul_nonfinite: "\<not> finite_num a \<Longrightarrow> \<not> finite_num (js_mul a (Fin k))"
  by (cases a) (simp_all add: inf_of_sign_def)

lemma js_div_zero_nonfinite: "\<not> finite_num (js_div a (Fin 0))"
  by (cases a) (simp_all add: inf_of_sign_def)

lemma js_add_NaN [simp]: "js_add a NaN = NaN"
  by (cases a) simp_all

lemma js_sub_NaN [simp]: "js_sub a NaN = NaN"
  by (simp add: js_sub_def)

lemma relaxConstraint_coincident:
  assumes "active c" "p1 c < length ps" "p2 c < length ps"
    and "px (ps ! p1 c) = Fin x" "px (ps ! p2 c) = Fin x"
    and "py (ps ! p1 c) = Fin y" "py (ps ! p2 c) = Fin y"
    and "stiffness cfg = Fin k"
    and "\<not> pinned (ps ! p1 c)"
  shows "\<exists>qs. relaxConstraint cfg c ps = Inr qs \<and> px (qs ! p1 c) = NaN \<and> py (qs ! p1 c) = NaN"
proof -
  define corr where
    "corr = js_mul (js_mul (js_div (js_sub (length_c c) (Fin 0)) (Fin 0)) (Fin k)) (Fin 0.5)"
  have "\<not> finite_num corr"
    unfolding corr_def by (intro js_mul_nonfinite js_div_zero_nonfinite)
  then have off: "js_mul (Fin 0) corr = NaN" by (rule js_mul_zero_nonfinite)
  show ?thesis
    using assms off
    by (auto simp: relaxConstraint_def Let_def js_sub_def corr_def nth_list_update)
qed

lemma relaxLoop_numeral:
  "relaxLoop (numeral n) cfg cs ps =
     (case relaxPass cfg cs ps of
        Inl e \<Rightarrow> Inl e
      | Inr ps1 \<Rightarrow> relaxLoop (pred_numeral n) cfg cs ps1)"
  by (simp add: numeral_eq_Suc)


text \<open>
  Claim C1. The relaxation loop has no guard for a distance of zero: on two coincident
  particles joined by an active constraint it divides by zero, the correction is infinite,
  its product with the zero separation is NaN, and after the step every coordinate of
  both particles is NaN.
\<close>

theorem updatePhysics_coincident:
  "updatePhysics coincident_cloth =
     Inr (coincident_cloth
       \<lparr>particles := [\<lparr>px = NaN, py = NaN, oldx = NaN, oldy = NaN, pinned = False\<rparr>,
                      \<lparr>px = NaN, py = NaN, oldx = NaN, oldy = NaN, pinned = False\<rparr>]\<rparr>)"
  by (simp add: updatePhysics_def coincident_cloth_def DENIM_def iterations_def
      relaxConstraint_def integrateParticle_def Let_def js_sub_def js_gt_def inf_of_sign_def
      relaxLoop_numeral)

section \<open>The floor\<close>




text \<open>The whole step on a cloth of one falling particle: the implied velocity is \<open>(0.72, 0.9)\<close>.\<close>

lemma updatePhysics_settles:
  "updatePhysics falling_cloth =
     Inr (falling_cloth
       \<lparr>particles := [\<lparr>px = Fin 6.8, py = Fin 300, oldx = Fin 6.08, oldy = Fin 299.1,
                       pinned = False\<rparr>]\<rparr>)"
  by (simp add: updatePhysics_def falling_cloth_def DENIM_def iterations_def
      integrateParticle_def Let_def js_sub_def js_gt_def relaxLoop_numeral)

text \<open>
  The older copy of the script reflects instead: it sets \<open>oldy = y + vy\<close>, so that the
  velocity implied for the next frame is \<open>- vy\<close>, and leaves \<open>oldx\<close> at the previous
  \<open>x\<close>. The same particle leaves with the implied velocity \<open>(1.8, - 9)\<close>.
\<close>

lemma integrateParticle_part000_floor:
  assumes "\<not> pinned p"
    and "px p = Fin x" "py p = Fin y" "oldx p = Fin ox" "oldy p = Fin oy"
    and "friction cfg = Fin f" "gravity cfg = Fin g"
    and "300 < y + ((y - oy) * f + g)"
  shows "integrateParticle_part000 cfg p =
           \<lparr>px = Fin (x + (x - ox) * f), py = Fin 300,
            oldx = Fin x, oldy = Fin (300 + (y - oy) * f), pinned = False\<rparr>"
  using assms by (cases p) (simp add: integrateParticle_part000_def Let_def js_sub_def js_gt_def)

lemma updatePhysics_part000_bounces:
  "updatePhysics_part000 falling_cloth =
     Inr (falling_cloth
       \<lparr>particles := [\<lparr>px = Fin 6.8, py = Fin 300, oldx = Fin 5, oldy = Fin 309,
                       pinned = False\<rparr>]\<rparr>)"
  by (simp add: updatePhysics_part000_def falling_cloth_def DENIM_def iterations_part000_def
      integrateParticle_part000_def Let_def js_sub_def js_gt_def relaxLoop_numeral)

section \<open>The wind\<close>

text \<open>
  Claim C8. For a particle and a pointer at finite positions, with \<open>d\<close> their distance:
  a free particle with \<open>d < 80\<close> is moved by \<open>delta * force * mouseInfluence\<close>, where
  \<open>delta\<close> is the vector from the pointer to the particle and \<open>force = (80 - d) / 80\<close>;
  a pinned particle, and a particle with \<open>d \<ge> 80\<close>, is left as it is; at the centre the
  force is 1 (the division is by the radius) and the displacement is zero; at the edge
  the force is 0. \<open>applyWind\<close> does this to every particle of the cloth.
\<close>

theorem windParticle_displacement:
  assumes "px p = Fin x" "py p = Fin y" "mx m = Fin cx" "my m = Fin cy"
    and "mouseInfluence cfg = Fin k"
    and "d = sqrt ((x - cx) * (x - cx) + (y - cy) * (y - cy))"
  shows "(\<not> pinned p \<and> d < 80 \<longrightarrow>
            windForce (Fin 80) (Fin d) = Fin ((80 - d) / 80) \<and>
            windParticle m cfg p =
              p\<lparr>px := Fin (x + (x - cx) * ((80 - d) / 80) * k),
                py := Fin (y + (y - cy) * ((80 - d) / 80) * k)\<rparr>) \<and>
         (pinned p \<or> \<not> d < 80 \<longrightarrow> windParticle m cfg p = p) \<and>
         (x = cx \<and> y = cy \<longrightarrow> d = 0 \<and> windForce (Fin 80) (Fin d) = Fin 1 \<and>
            windParticle m cfg p = p) \<and>
         windForce (Fin 80) (Fin 80) = Fin 0 \<and>
         particles (applyWind m s) = map (windParticle m (config s)) (particles s)"
proof -
  have nonneg: "\<not> (x - cx) * (x - cx) + (y - cy) * (y - cy) < 0"
    by (simp add: not_less)
  have dist: "js_sqrt (js_add (js_mul (js_sub (px p) (mx m)) (js_sub (px p) (mx m)))
                              (js_mul (js_sub (py p) (my m)) (js_sub (py p) (my m)))) = Fin d"
    using assms nonneg by (simp add: js_sub_def)
  have force: "windForce (Fin 80) (Fin d) = Fin ((80 - d) / 80)"
    by (simp add: windForce_def js_sub_def)
  have moved: "windParticle m cfg p =
              p\<lparr>px := Fin (x + (x - cx) * ((80 - d) / 80) * k),
                py := Fin (y + (y - cy) * ((80 - d) / 80) * k)\<rparr>"
    if "\<not> pinned p" "d < 80"
    using that assms(1-5) dist force
    by (simp add: windParticle_def Let_def js_sub_def mult.assoc)
  have still: "windParticle m cfg p = p" if "pinned p \<or> \<not> d < 80"
    using that dist by (auto simp: windParticle_def Let_def)
  have centre: "d = 0 \<and> windForce (Fin 80) (Fin d) = Fin 1 \<and> windParticle m cfg p = p"
    if "x = cx \<and> y = cy"
  proof -
    from that assms(6) have d0: "d = 0" by simp
    then have "windForce (Fin 80) (Fin d) = Fin 1" using force by simp
    moreover have "windParticle m cfg p = p"
    proof (cases "pinned p")
      case True
      then show ?thesis by (simp add: still)
    next
      case False
      with d0 have "windParticle m cfg p =
          p\<lparr>px := Fin (x + (x - cx) * ((80 - d) / 80) * k),
            py := Fin (y + (y - cy) * ((80 - d) / 80) * k)\<rparr>"
        by (intro moved) simp_all
      with that assms(1,2) show ?thesis by simp
    qed
    ultimately show ?thesis using d0 by simp
  qed
  have edge: "windForce (Fin 80) (Fin 80) = Fin 0"
    by (simp add: windForce_def js_sub_def)
  have wind: "particles (applyWind m s) = map (windParticle m (config s)) (particles s)"
    by (simp add: applyWind_def)
  show ?thesis
    using force moved still centre edge wind by blast
qed

theorem windParticle_displacement_witness:
  "\<not> pinned free_particle \<and> sqrt ((6 - 3) * (6 - 3) + (8 - 4) * (8 - 4)) < (80::real) \<and>
   windForce (Fin 80) (Fin 5) = Fin (15 / 16) \<and>
   windParticle pointer DENIM free_particle =
     free_particle\<lparr>px := Fin (393 / 64), py := Fin (131 / 16)\<rparr>"
proof -
  have five: "sqrt ((6 - 3) * (6 - 3) + (8 - 4) * (8 - 4)) = (5::real)"
    by (rule real_sqrt_unique) simp_all
  have free: "\<not> pinned free_particle" by (simp add: free_particle_def)
  have pos: "px free_particle = Fin 6" "py free_particle = Fin 8"
    by (simp_all add: free_particle_def)
  have ptr: "mx pointer = Fin 3" "my pointer = Fin 4"
    by (simp_all add: pointer_def)
  have infl: "mouseInfluence DENIM = Fin (1 / 20)"
    by (simp add: DENIM_def)
  note inst = windParticle_displacement [OF pos ptr infl five [symmetric], where s = hanging_pair]
  from inst free
  have "windForce (Fin 80) (Fin 5) = Fin ((80 - 5) / 80)"
    and "windParticle pointer DENIM free_particle =
          free_particle\<lparr>px := Fin (6 + (6 - 3) * ((80 - 5) / 80) * (1 / 20)),
                         py := Fin (8 + (8 - 4) * ((80 - 5) / 80) * (1 / 20))\<rparr>"
    by simp_all
  then have "windForce (Fin 80) (Fin 5) = Fin (15 / 16)"
    and "windParticle pointer DENIM free_particle =
          free_particle\<lparr>px := Fin (393 / 64), py := Fin (131 / 16)\<rparr>"
    by simp_all
  moreover have "sqrt ((6 - 3) * (6 - 3) + (8 - 4) * (8 - 4)) < (80::real)"
    unfolding five by simp
  ultimately show ?thesis using free by blast
qed

section \<open>The cut\<close>

lemma js_eq_Fin [simp]: "js_eq (Fin a) (Fin b) = (a = b)"
  by simp

lemma js_le_Fin [simp]: "js_le (Fin a) (Fin b) = (a \<le> b)"
  by (auto simp: js_le_def)

lemma js_ge_Fin [simp]: "js_ge (Fin a) (Fin b) = (b \<le> a)"
  by (simp add: js_ge_def)

lemma js_sub_Fin [simp]: "js_sub (Fin a) (Fin b) = Fin (a - b)"
  by (simp add: js_sub_def)

lemma round_half_even_of_int: "round_half_even (of_int k) = k"
  by (simp add: round_half_even_def)

lemma to_double_binade:
  assumes lo: "2 powr of_int e \<le> \<bar>x\<bar>" and hi: "\<bar>x\<bar> < 2 powr of_int (e + 1)"
    and e: "- 1022 \<le> e"
  shows "to_double x =
     (let ulp = 2 powr of_int (e - 52);
          y = of_int (round_half_even (x / ulp)) * ulp
      in if 2 ^ 1024 \<le> \<bar>y\<bar> then (if 0 < x then PInf else NInf) else Fin y)"
proof -
  have pos: "0 < \<bar>x\<bar>"
    by (rule less_le_trans [OF _ lo]) simp
  then have nz: "x \<noteq> 0" by simp
  have "\<lfloor>log 2 \<bar>x\<bar>\<rfloor> = e"
    using lo hi pos by (subst floor_log_eq_powr_iff) (simp_all add: add.commute)
  then have "max \<lfloor>log 2 \<bar>x\<bar>\<rfloor> (- 1022) = e"
    using e by simp
  then show ?thesis
    using nz by (simp add: to_double_def Let_def)
qed

lemma to_double_exact:
  assumes lo: "2 powr of_int e \<le> \<bar>x\<bar>" and hi: "\<bar>x\<bar> < 2 powr of_int (e + 1)"
    and e: "- 1022 \<le> e" "e \<le> 1023"
    and k: "x = of_int k * 2 powr of_int (e - 52)"
  shows "to_double x = Fin x"
proof -
  have u: "(2::real) powr of_int (e - 52) \<noteq> 0" by simp
  have q: "x / 2 powr of_int (e - 52) = of_int k"
    unfolding k by simp
  have "(2::real) powr of_int (e + 1) \<le> 2 powr of_int 1024"
    using e by (intro powr_mono) simp_all
  also have "\<dots> = 2 ^ 1024"
    by (simp add: powr_realpow [symmetric])
  finally have "\<bar>x\<bar> < 2 ^ 1024" using hi by simp
  then have lt: "\<not> 2 ^ 1024 \<le> \<bar>x\<bar>" by (simp only: not_le)
  have step: "to_double x = (if 2 ^ 1024 \<le> \<bar>x\<bar> then (if 0 < x then PInf else NInf) else Fin x)"
    by (simp only: to_double_binade [OF lo hi e(1)] Let_def q round_half_even_of_int
        k [symmetric])
  show ?thesis by (simp only: step lt if_False)
qed

lemma to_double_of_int:
  assumes "\<bar>n\<bar> < 2 ^ 53"
  shows "to_double (of_int n) = Fin (of_int n)"
proof (cases "n = 0")
  case True
  then show ?thesis by (simp add: to_double_def)
next
  case False
  define x :: real where "x = of_int n"
  define e where "e = \<lfloor>log 2 \<bar>x\<bar>\<rfloor>"
  have x1: "1 \<le> \<bar>x\<bar>" using False by (simp add: x_def flip: of_int_abs)
  have x53: "\<bar>x\<bar> < 2 ^ 53"
    using assms unfolding x_def by (metis of_int_abs of_int_less_numeral_power_cancel_iff)
  have bounds: "2 powr of_int e \<le> \<bar>x\<bar> \<and> \<bar>x\<bar> < 2 powr of_int (e + 1)"
    using x1 floor_log_eq_powr_iff [of "\<bar>x\<bar>" 2 e] by (simp add: e_def add.commute)
  have e0: "0 \<le> e"
    using x1 by (simp add: e_def)
  have "(2::real) powr of_int e < 2 ^ 53"
    using bounds x53 by simp
  also have "(2::real) ^ 53 = 2 powr of_int 53"
    by (simp add: powr_realpow [symmetric])
  finally have "(of_int e :: real) < of_int 53"
    by (subst (asm) powr_less_cancel_iff) simp_all
  then have e52: "e \<le> 52" by linarith
  have u: "(2::real) powr of_int (e - 52) = 1 / 2 ^ nat (52 - e)"
  proof -
    have "(2::real) powr of_int (e - 52) = 2 powr - of_int (52 - e)" by simp
    also have "\<dots> = 1 / 2 powr of_int (52 - e)" by (simp only: powr_minus_divide)
    also have "(2::real) powr of_int (52 - e) = 2 ^ nat (52 - e)"
      using powr_real_of_int [of 2 "52 - e"] e52 by simp
    finally show ?thesis .
  qed
  have k: "x = of_int (n * 2 ^ nat (52 - e)) * 2 powr of_int (e - 52)"
    unfolding u by (simp add: x_def)
  have "to_double x = Fin x"
  proof (rule to_double_exact [where e = e and k = "n * 2 ^ nat (52 - e)"])
    show "2 powr of_int e \<le> \<bar>x\<bar>" using bounds by (rule conjunct1)
    show "\<bar>x\<bar> < 2 powr of_int (e + 1)" using bounds by (rule conjunct2)
    show "- 1022 \<le> e" using e0 by simp
    show "e \<le> 1023" using e52 by simp
    show "x = of_int (n * 2 ^ nat (52 - e)) * 2 powr of_int (e - 52)" by (rule k)
  qed
  then show ?thesis by (simp add: x_def)
qed

lemma to_double_numeral [simp]:
  "numeral n < (2::int) ^ 53 \<Longrightarrow> to_double (numeral n) = Fin (numeral n)"
  using to_double_of_int [of "numeral n"] by simp

lemma to_double_neg_numeral [simp]:
  "numeral n < (2::int) ^ 53 \<Longrightarrow> to_double (- numeral n) = Fin (- numeral n)"
  using to_double_of_int [of "- numeral n"] by simp

lemma to_double_0 [simp]: "to_double 0 = Fin 0"
  by (simp add: to_double_def)

lemma to_double_1 [simp]: "to_double 1 = Fin 1"
  using to_double_of_int [of 1] by simp

lemma to_double_half [simp]: "to_double (1 / 2) = Fin (1 / 2)"
  by (rule to_double_exact [where e = "- 1" and k = "2 ^ 52"])
    (simp_all add: powr_neg_numeral powr_minus_divide)

lemma to_double_neg_half [simp]: "to_double (- (1 / 2)) = Fin (- (1 / 2))"
  by (rule to_double_exact [where e = "- 1" and k = "- (2 ^ 52)"])
    (simp_all add: powr_neg_numeral powr_minus_divide)








lemma binade_upper:
  assumes "x \<noteq> 0"
  shows "\<bar>x\<bar> < 2 powr of_int (binade x + 1)"
proof -
  have pos: "0 < \<bar>x\<bar>" using assms by simp
  have "\<bar>x\<bar> < 2 powr of_int (\<lfloor>log 2 \<bar>x\<bar>\<rfloor> + 1)"
    using floor_log_eq_powr_iff [of "\<bar>x\<bar>" 2 "\<lfloor>log 2 \<bar>x\<bar>\<rfloor>"] pos by (simp add: add.commute)
  moreover have "(2::real) powr of_int (\<lfloor>log 2 \<bar>x\<bar>\<rfloor> + 1) \<le> 2 powr of_int (binade x + 1)"
    by (intro powr_mono) (simp_all add: binade_def)
  ultimately show ?thesis by linarith
qed




















text \<open>
  Rounding decides the test: the two segments below meet at the origin and are not parallel, but
  the square of \<open>1 + 2 ^ - 27\<close> rounds to \<open>1 + 2 ^ - 26\<close>, the denominator is computed
  as zero and the test answers no.
\<close>

lemma to_double_near_one:
  assumes "0 \<le> k" "k < 2 ^ 52"
  shows "to_double (1 + of_int k / 2 ^ 52) = Fin (1 + of_int k / 2 ^ 52)"
proof (rule to_double_exact [where e = 0 and k = "2 ^ 52 + k"])
  have k: "0 \<le> (of_int k :: real)" "(of_int k :: real) < 2 ^ 52"
    using assms by (simp_all flip: of_int_less_iff add: of_int_numeral)
  then have a: "\<bar>1 + of_int k / 2 ^ 52\<bar> = (1 + of_int k / 2 ^ 52 :: real)" by simp
  show "2 powr of_int 0 \<le> \<bar>1 + of_int k / 2 ^ 52 :: real\<bar>"
    unfolding a using k by simp
  show "\<bar>1 + of_int k / 2 ^ 52 :: real\<bar> < 2 powr of_int (0 + 1)"
    unfolding a using k by simp
  show "1 + of_int k / 2 ^ 52 = (of_int (2 ^ 52 + k) :: real) * 2 powr of_int (0 - 52)"
    by (simp add: powr_neg_numeral field_simps)
qed simp_all

lemma lineIntersect_rounds:
  "\<not> lineIntersect (Fin 0) (Fin 0) (Fin (1 + 1 / 2 ^ 27)) (Fin (1 + 1 / 2 ^ 26))
        (Fin 0) (Fin 0) (Fin 1) (Fin (1 + 1 / 2 ^ 27))"
proof -
  have a: "to_double (1 + 1 / 2 ^ 27) = Fin (1 + 1 / 2 ^ 27)"
    using to_double_near_one [of "2 ^ 25"] by simp
  have b: "to_double (1 + 1 / 2 ^ 26) = Fin (1 + 1 / 2 ^ 26)"
    using to_double_near_one [of "2 ^ 26"] by simp
  have sq: "to_double ((1 + 1 / 2 ^ 27) * (1 + 1 / 2 ^ 27)) = Fin (1 + 1 / 2 ^ 26)"
  proof -
    have "to_double ((1 + 1 / 2 ^ 27) * (1 + 1 / 2 ^ 27)) =
       (let ulp = 2 powr of_int (0 - 52);
            y = of_int (round_half_even ((1 + 1 / 2 ^ 27) * (1 + 1 / 2 ^ 27) / ulp)) * ulp
        in if 2 ^ 1024 \<le> \<bar>y\<bar>
           then (if 0 < (1 + 1 / 2 ^ 27) * (1 + 1 / 2 ^ 27 :: real) then PInf else NInf)
           else Fin y)"
      by (rule to_double_binade) simp_all
    also have "\<dots> = Fin (1 + 1 / 2 ^ 26)"
      by (simp add: Let_def powr_neg_numeral round_half_even_def)
    finally show ?thesis .
  qed
  show ?thesis
    by (simp add: lineIntersect_def Let_def fl_sub_def fl_mul_def a b sq
        del: power_numeral)
qed




section \<open>The number of relaxation passes\<close>

lemma then_pass_Inl: "(then_pass cfg cs ^^ k) (Inl e) = Inl e"
  by (induction k) (simp_all add: then_pass_def)

lemma relaxLoop_funpow: "relaxLoop k cfg cs ps = (then_pass cfg cs ^^ k) (Inr ps)"
proof (induction k arbitrary: ps)
  case 0
  show ?case by simp
next
  case (Suc k)
  have step: "(then_pass cfg cs ^^ Suc k) (Inr ps) = (then_pass cfg cs ^^ k) (relaxPass cfg cs ps)"
    by (simp only: funpow_Suc_right o_apply then_pass_def sum.case)
  show ?case
  proof (cases "relaxPass cfg cs ps")
    case (Inl e)
    then show ?thesis by (simp only: step relaxLoop.simps sum.case then_pass_Inl)
  next
    case (Inr ps1)
    with Suc.IH [of ps1] show ?thesis by (simp only: step relaxLoop.simps sum.case)
  qed
qed

text \<open>One pass on the stretched pair halves the error of the free particle.\<close>

lemma relaxPass_stretched:
  assumes "0 < x" "stiffness cfg = Fin 1"
  shows "relaxPass cfg unit_edge
           [\<lparr>px = Fin 0, py = Fin 0, oldx = Fin 0, oldy = Fin 0, pinned = True\<rparr>,
            \<lparr>px = Fin x, py = Fin 0, oldx = Fin 2, oldy = Fin 0, pinned = False\<rparr>] =
         Inr [\<lparr>px = Fin 0, py = Fin 0, oldx = Fin 0, oldy = Fin 0, pinned = True\<rparr>,
              \<lparr>px = Fin ((x + 1) / 2), py = Fin 0, oldx = Fin 2, oldy = Fin 0, pinned = False\<rparr>]"
proof -
  have "sqrt (x * x) = x" using assms(1) by simp
  then show ?thesis
    using assms
    by (simp add: unit_edge_def relaxConstraint_def Let_def js_sub_def field_simps)
qed

lemma iterations_MATERIALS:
  "iterations DENIM = 4 \<and> iterations LINEN = 4 \<and> iterations SILK = 8 \<and>
   iterations ULTRA_SILK = 12"
  by (simp add: iterations_def DENIM_def LINEN_def SILK_def ULTRA_SILK_def)

text \<open>
  Claim C6, as the code has it. The relaxation of a physics step is exactly 12 passes
  over the constraints when the material's name is \<open>Ultra Silk\<close>, 8 when it is
  \<open>Silk\<close>, and 4 for every other material, followed by the integration; the count is
  computed from the name and no field of the configuration holds it.
\<close>

theorem relaxation_passes_by_name:
  "updatePhysics s =
     (case (then_pass (config s) (constraints s) ^^
              (if name (config s) = ''Ultra Silk'' then 12
               else if name (config s) = ''Silk'' then 8 else 4)) (Inr (particles s)) of
        Inl e \<Rightarrow> Inl e
      | Inr ps \<Rightarrow> Inr (s\<lparr>particles := map (integrateParticle (config s)) ps\<rparr>))"
  by (simp add: updatePhysics_def iterations_def relaxLoop_funpow)

text \<open>
  Claim C6, as stated, fails: a profile named \<open>Denim\<close> whose iteration count is 7 gets
  4 passes, and on a stretched pair of particles 4 passes and 7 passes end in different
  positions.
\<close>

theorem iterations_field_ignored:
  "iterations denim_seven = 4 \<and> profile_iterations denim_seven = 7 \<and>
   relaxLoop (iterations denim_seven) denim_seven unit_edge stretched_pair \<noteq>
   relaxLoop (profile_iterations denim_seven) denim_seven unit_edge stretched_pair"
proof -
  have st: "stiffness denim_seven = Fin 1"
    by (simp add: denim_seven_def DENIM_def config.defs)
  have it: "iterations denim_seven = 4"
    by (simp add: iterations_def denim_seven_def DENIM_def config.defs)
  have fld: "profile_iterations denim_seven = 7"
    by (simp add: denim_seven_def config.defs profile.defs)
  have four: "relaxLoop 4 denim_seven unit_edge stretched_pair =
      Inr [\<lparr>px = Fin 0, py = Fin 0, oldx = Fin 0, oldy = Fin 0, pinned = True\<rparr>,
           \<lparr>px = Fin (17 / 16), py = Fin 0, oldx = Fin 2, oldy = Fin 0, pinned = False\<rparr>]"
    by (simp add: relaxLoop_numeral stretched_pair_def relaxPass_stretched [OF _ st])
  have seven: "relaxLoop 7 denim_seven unit_edge stretched_pair =
      Inr [\<lparr>px = Fin 0, py = Fin 0, oldx = Fin 0, oldy = Fin 0, pinned = True\<rparr>,
           \<lparr>px = Fin (129 / 128), py = Fin 0, oldx = Fin 2, oldy = Fin 0, pinned = False\<rparr>]"
    by (simp add: relaxLoop_numeral stretched_pair_def relaxPass_stretched [OF _ st])
  show ?thesis
    unfolding it fld four seven by simp
qed

section \<open>The grid of init\<close>

lemma getIdx_less: "x < nx \<Longrightarrow> y < ny \<Longrightarrow> getIdx nx x y < nx * ny"
proof -
  assume x: "x < nx" and y: "y < ny"
  have "y * nx + x < y * nx + nx" using x by simp
  also have "\<dots> = Suc y * nx" by simp
  also have "\<dots> \<le> ny * nx" using y by (intro mult_le_mono1) simp
  finally show ?thesis by (simp add: getIdx_def mult.commute)
qed

lemma addConstraint_edge:
  "i < length ps \<Longrightarrow> j < length ps \<Longrightarrow> addConstraint ps i j cs = Inr (cs @ [edge ps i j])"
  by (simp add: addConstraint_def edge_def Let_def)

lemma cellConstraints_edges:
  assumes "length ps = nx * ny" "x < nx" "y < ny"
  shows "cellConstraints ps nx ny y x cs = Inr (cs @ cell_edges ps nx ny y x)"
proof -
  have i: "getIdx nx x y < length ps" using assms by (simp add: getIdx_less)
  have r: "getIdx nx (x + 1) y < length ps" if "x + 1 < nx"
    using that assms by (simp add: getIdx_less)
  have b: "getIdx nx x (y + 1) < length ps" if "y + 1 < ny"
    using that assms by (simp add: getIdx_less)
  have cx: "(int x < int nx - 1) = (x + 1 < nx)" by auto
  have cy: "(int y < int ny - 1) = (y + 1 < ny)" by auto
  show ?thesis
    unfolding cellConstraints_def Let_def cx cy cell_edges_def
    using i r b by (simp add: addConstraint_edge)
qed

lemma for_loop_pushes:
  assumes "\<And>i cs. i \<in> set xs \<Longrightarrow> body i cs = Inr (cs @ g i)"
  shows "for_loop xs body cs = Inr (cs @ concat (map g xs))"
  using assms by (induction xs arbitrary: cs) simp_all

lemma genConstraints_grid:
  assumes "length ps = nx * ny"
  shows "genConstraints ps nx ny = Inr (grid_edges ps nx ny)"
proof -
  have row: "for_loop [0..<nx] (cellConstraints ps nx ny y) cs =
               Inr (cs @ concat (map (cell_edges ps nx ny y) [0..<nx]))"
    if y: "y \<in> set [0..<ny]" for y cs
  proof (rule for_loop_pushes)
    fix x ds assume "x \<in> set [0..<nx]"
    with y assms show "cellConstraints ps nx ny y x ds = Inr (ds @ cell_edges ps nx ny y x)"
      by (simp add: cellConstraints_edges)
  qed
  have "for_loop [0..<ny] (\<lambda>y. for_loop [0..<nx] (cellConstraints ps nx ny y)) [] =
          Inr ([] @ concat (map (\<lambda>y. concat (map (cell_edges ps nx ny y) [0..<nx])) [0..<ny]))"
    by (rule for_loop_pushes) (rule row)
  then show ?thesis by (simp add: genConstraints_def grid_edges_def)
qed

lemma length_rows: "length (concat (map (\<lambda>y. map (f y) [0..<nx]) [0..<ny])) = nx * ny"
  by (induction ny) simp_all

lemma nth_rows:
  "x < nx \<Longrightarrow> y < ny \<Longrightarrow> concat (map (\<lambda>y. map (f y) [0..<nx]) [0..<ny]) ! (y * nx + x) = f y x"
proof (induction ny)
  case 0
  then show ?case by simp
next
  case (Suc ny)
  show ?case
  proof (cases "y < ny")
    case True
    then have "y * nx + x < nx * ny"
      using getIdx_less [of x nx y ny] Suc.prems by (simp add: getIdx_def)
    with True Suc show ?thesis by (simp add: nth_append length_rows)
  next
    case False
    with Suc.prems have "y = ny" by simp
    with Suc.prems show ?thesis by (simp add: nth_append length_rows mult.commute)
  qed
qed

lemma length_genParticles: "length (genParticles off startY gapX gapY nx ny) = nx * ny"
  by (simp add: genParticles_def length_rows)

lemma nth_genParticles:
  "x < nx \<Longrightarrow> y < ny \<Longrightarrow>
     genParticles off startY gapX gapY nx ny ! getIdx nx x y = newParticle off startY gapX gapY x y"
  unfolding genParticles_def getIdx_def
  by (rule nth_rows [where f = "\<lambda>y x. newParticle off startY gapX gapY x y"])

text \<open>Counting the edges.\<close>

lemma count_below: "(\<Sum>x\<leftarrow>[0..<n]. if Suc x < m then 1 else 0) = min n (m - 1)"
  by (induction n) auto

lemma length_concat_map: "length (concat (map f xs)) = (\<Sum>x\<leftarrow>xs. length (f x))"
  by (simp add: length_concat comp_def)

lemma length_cell_edges:
  "length (cell_edges ps nx ny y x) =
     (if Suc x < nx then 1 else 0) + (if Suc y < ny then 1 else 0)"
  by (simp add: cell_edges_def)

lemma length_row_edges:
  "length (concat (map (cell_edges ps nx ny y) [0..<nx])) =
     (nx - 1) + (if Suc y < ny then nx else 0)"
proof -
  have "length (concat (map (cell_edges ps nx ny y) [0..<nx])) =
          (\<Sum>x\<leftarrow>[0..<nx]. (if Suc x < nx then 1 else 0) + (if Suc y < ny then 1 else 0))"
    by (simp only: length_concat_map length_cell_edges)
  also have "\<dots> = (\<Sum>x\<leftarrow>[0..<nx]. if Suc x < nx then 1 else 0) +
                   (\<Sum>x\<leftarrow>[0..<nx]. if Suc y < ny then 1 else 0)"
    by (simp only: sum_list_addf)
  also have "(\<Sum>x\<leftarrow>[0..<nx]. if Suc x < nx then 1 else 0) = nx - 1"
    by (simp add: count_below)
  also have "(\<Sum>x\<leftarrow>[0..<nx]. if Suc y < ny then 1 else 0) = (if Suc y < ny then nx else (0::nat))"
    by (simp add: sum_list_triv)
  finally show ?thesis .
qed

lemma length_grid_edges: "length (grid_edges ps nx ny) = nx * (ny - 1) + (nx - 1) * ny"
proof -
  have "length (grid_edges ps nx ny) =
          (\<Sum>y\<leftarrow>[0..<ny]. length (concat (map (cell_edges ps nx ny y) [0..<nx])))"
    unfolding grid_edges_def by (rule length_concat_map)
  also have "\<dots> = (\<Sum>y\<leftarrow>[0..<ny]. (nx - 1) + (if Suc y < ny then nx else 0))"
    by (simp only: length_row_edges)
  also have "\<dots> = (\<Sum>y\<leftarrow>[0..<ny]. nx - 1) + (\<Sum>y\<leftarrow>[0..<ny]. if Suc y < ny then nx else 0)"
    by (simp only: sum_list_addf)
  also have "(\<Sum>y\<leftarrow>[0..<ny]. nx - 1) = ny * (nx - 1)"
    by (simp add: sum_list_triv)
  also have "(\<Sum>y\<leftarrow>[0..<ny]. if Suc y < ny then nx else 0) =
             (\<Sum>y\<leftarrow>[0..<ny]. nx * (if Suc y < ny then 1 else 0))"
    by (intro arg_cong [where f = sum_list] map_cong) simp_all
  also have "\<dots> = nx * (ny - 1)"
    by (simp only: sum_list_const_mult count_below) simp
  finally show ?thesis by (simp add: mult.commute)
qed

lemma grid_edges_only:
  assumes "c \<in> set (grid_edges ps nx ny)"
  shows "\<exists>x y. x < nx \<and> y < ny \<and>
           (Suc x < nx \<and> c = edge ps (getIdx nx x y) (getIdx nx (Suc x) y) \<or>
            Suc y < ny \<and> c = edge ps (getIdx nx x y) (getIdx nx x (Suc y)))"
proof -
  from assms obtain x y where xy: "x < nx" "y < ny" and c: "c \<in> set (cell_edges ps nx ny y x)"
    by (auto simp: grid_edges_def)
  show ?thesis
    using xy c by (intro exI [of _ x] exI [of _ y]) (auto simp: cell_edges_def split: if_splits)
qed

lemma concat_map_member: "y \<in> set ys \<Longrightarrow> e \<in> set (f y) \<Longrightarrow> e \<in> set (concat (map f ys))"
  by auto

lemma grid_edges_right:
  assumes "Suc x < nx" "y < ny"
  shows "edge ps (getIdx nx x y) (getIdx nx (Suc x) y) \<in> set (grid_edges ps nx ny)"
proof -
  have e: "edge ps (getIdx nx x y) (getIdx nx (Suc x) y) \<in> set (cell_edges ps nx ny y x)"
    using assms by (simp add: cell_edges_def)
  have x: "x \<in> set [0..<nx]" and y: "y \<in> set [0..<ny]" using assms by simp_all
  show ?thesis
    unfolding grid_edges_def
    by (rule concat_map_member [OF y], rule concat_map_member [OF x], rule e)
qed

lemma grid_edges_bottom:
  assumes "x < nx" "Suc y < ny"
  shows "edge ps (getIdx nx x y) (getIdx nx x (Suc y)) \<in> set (grid_edges ps nx ny)"
proof -
  have e: "edge ps (getIdx nx x y) (getIdx nx x (Suc y)) \<in> set (cell_edges ps nx ny y x)"
    using assms by (simp add: cell_edges_def)
  have x: "x \<in> set [0..<nx]" and y: "y \<in> set [0..<ny]" using assms by simp_all
  show ?thesis
    unfolding grid_edges_def
    by (rule concat_map_member [OF y], rule concat_map_member [OF x], rule e)
qed

lemma init_result:
  "init s =
     Inr (s\<lparr>particles := init_particles s,
            constraints := grid_edges (init_particles s)
              (particlesX (config s)) (particlesY (config s))\<rparr>)"
  by (simp add: init_def Let_def init_particles_def init_gapX_def init_gapY_def
      genConstraints_grid length_genParticles)

lemma init_particles_cong:
  "config s' = config s \<Longrightarrow> offsetX s' = offsetX s \<Longrightarrow> init_particles s' = init_particles s"
  by (simp add: init_particles_def init_gapX_def init_gapY_def)

lemma init_particles_finite:
  assumes "offsetX s = Fin off" "x < particlesX (config s)" "y < particlesY (config s)"
  shows "px (init_particles s ! getIdx (particlesX (config s)) x y) =
           Fin (off + real x * (250 / real (particlesX (config s)))) \<and>
         py (init_particles s ! getIdx (particlesX (config s)) x y) =
           Fin (- 250 + real y * (350 / real (particlesY (config s))))"
  using assms
  by (simp add: init_particles_def nth_genParticles newParticle_def init_gapX_def init_gapY_def
      CLOTH_WIDTH_def CLOTH_HEIGHT_def)

lemma edge_finite:
  assumes "px (ps ! i) = Fin xa" "py (ps ! i) = Fin ya" "px (ps ! j) = Fin xb" "py (ps ! j) = Fin yb"
  shows "length_c (edge ps i j) = Fin (sqrt ((xa - xb)\<^sup>2 + (ya - yb)\<^sup>2))"
  using assms by (simp add: edge_def js_sub_def power2_eq_square)

lemma grid_edges_shape:
  assumes "c \<in> set (grid_edges ps nx ny)"
  shows "active c \<and>
        (\<exists>x y. x < nx \<and> y < ny \<and> p1 c = getIdx nx x y \<and>
           (Suc x < nx \<and> p2 c = getIdx nx (Suc x) y \<or>
            Suc y < ny \<and> p2 c = getIdx nx x (Suc y))) \<and>
        length_c c =
          js_hypot (js_sub (px (ps ! p1 c)) (px (ps ! p2 c)))
                   (js_sub (py (ps ! p1 c)) (py (ps ! p2 c)))"
proof -
  from grid_edges_only [OF assms] obtain x y where xy: "x < nx" "y < ny"
    and c: "Suc x < nx \<and> c = edge ps (getIdx nx x y) (getIdx nx (Suc x) y) \<or>
            Suc y < ny \<and> c = edge ps (getIdx nx x y) (getIdx nx x (Suc y))"
    by blast
  from c have act: "active c" and len: "length_c c =
        js_hypot (js_sub (px (ps ! p1 c)) (px (ps ! p2 c)))
                 (js_sub (py (ps ! p1 c)) (py (ps ! p2 c)))"
    by (auto simp: edge_def)
  from c have "p1 c = getIdx nx x y \<and>
         (Suc x < nx \<and> p2 c = getIdx nx (Suc x) y \<or>
          Suc y < ny \<and> p2 c = getIdx nx x (Suc y))"
    by (auto simp: edge_def)
  with xy have "\<exists>x y. x < nx \<and> y < ny \<and> p1 c = getIdx nx x y \<and>
         (Suc x < nx \<and> p2 c = getIdx nx (Suc x) y \<or>
          Suc y < ny \<and> p2 c = getIdx nx x (Suc y))"
    by blast
  with act len show ?thesis by simp
qed

lemma grid_edges_has_right:
  assumes "Suc x < nx \<and> y < ny"
  shows "\<exists>c\<in>set (grid_edges ps nx ny). p1 c = getIdx nx x y \<and> p2 c = getIdx nx (Suc x) y"
proof (rule bexI)
  show "edge ps (getIdx nx x y) (getIdx nx (Suc x) y) \<in> set (grid_edges ps nx ny)"
    using assms by (simp add: grid_edges_right)
  show "p1 (edge ps (getIdx nx x y) (getIdx nx (Suc x) y)) = getIdx nx x y \<and>
        p2 (edge ps (getIdx nx x y) (getIdx nx (Suc x) y)) = getIdx nx (Suc x) y"
    by (simp add: edge_def)
qed

lemma grid_edges_has_bottom:
  assumes "x < nx \<and> Suc y < ny"
  shows "\<exists>c\<in>set (grid_edges ps nx ny). p1 c = getIdx nx x y \<and> p2 c = getIdx nx x (Suc y)"
proof (rule bexI)
  show "edge ps (getIdx nx x y) (getIdx nx x (Suc y)) \<in> set (grid_edges ps nx ny)"
    using assms by (simp add: grid_edges_bottom)
  show "p1 (edge ps (getIdx nx x y) (getIdx nx x (Suc y))) = getIdx nx x y \<and>
        p2 (edge ps (getIdx nx x y) (getIdx nx x (Suc y))) = getIdx nx x (Suc y)"
    by (simp add: edge_def)
qed

lemma init_edges_euclid:
  assumes off: "offsetX s = Fin off"
    and mem: "c \<in> set (grid_edges (init_particles s) (particlesX (config s)) (particlesY (config s)))"
  shows "\<exists>xa ya xb yb.
           px (init_particles s ! p1 c) = Fin xa \<and> py (init_particles s ! p1 c) = Fin ya \<and>
           px (init_particles s ! p2 c) = Fin xb \<and> py (init_particles s ! p2 c) = Fin yb \<and>
           length_c c = Fin (sqrt ((xa - xb)\<^sup>2 + (ya - yb)\<^sup>2))"
proof -
  define nx where "nx = particlesX (config s)"
  define ny where "ny = particlesY (config s)"
  define ps where "ps = init_particles s"
  have fin: "\<exists>xa ya. px (ps ! getIdx nx x y) = Fin xa \<and> py (ps ! getIdx nx x y) = Fin ya"
    if "x < nx" "y < ny" for x y
    using that init_particles_finite [OF off, of x y] by (simp add: ps_def nx_def ny_def)
  from grid_edges_shape [OF mem] obtain x y x' y' where
    xy: "x < nx" "y < ny" "x' < nx" "y' < ny"
    and ij: "p1 c = getIdx nx x y" "p2 c = getIdx nx x' y'"
    and len: "length_c c =
        js_hypot (js_sub (px (ps ! p1 c)) (px (ps ! p2 c)))
                 (js_sub (py (ps ! p1 c)) (py (ps ! p2 c)))"
    unfolding nx_def [symmetric] ny_def [symmetric] ps_def [symmetric] by blast
  from fin [OF xy(1,2)] ij obtain xa ya where a: "px (ps ! p1 c) = Fin xa" "py (ps ! p1 c) = Fin ya"
    by auto
  from fin [OF xy(3,4)] ij obtain xb yb where b: "px (ps ! p2 c) = Fin xb" "py (ps ! p2 c) = Fin yb"
    by auto
  have "length_c c = Fin (sqrt ((xa - xb)\<^sup>2 + (ya - yb)\<^sup>2))"
    unfolding len a b by (simp add: js_sub_def power2_eq_square)
  with a b show ?thesis unfolding ps_def by blast
qed

lemma init_indices_ok:
  assumes "init s = Inr t"
  shows "indices_ok t"
proof -
  define ps where "ps = init_particles s"
  define nx where "nx = particlesX (config s)"
  define ny where "ny = particlesY (config s)"
  from assms have t: "t = s\<lparr>particles := ps, constraints := grid_edges ps nx ny\<rparr>"
    by (simp add: init_result ps_def nx_def ny_def)
  have len: "length ps = nx * ny"
    by (simp add: ps_def init_particles_def length_genParticles nx_def ny_def)
  have "p1 c < length ps \<and> p2 c < length ps" if "c \<in> set (grid_edges ps nx ny)" for c
  proof -
    from grid_edges_shape [OF that] obtain x y where
      "x < nx" "y < ny" "p1 c = getIdx nx x y"
      "Suc x < nx \<and> p2 c = getIdx nx (Suc x) y \<or> Suc y < ny \<and> p2 c = getIdx nx x (Suc y)"
      by blast
    then show ?thesis unfolding len by (auto simp: getIdx_less)
  qed
  then show ?thesis by (simp add: indices_ok_def t list_all_iff)
qed

text \<open>The grid of two rows and two columns, computed.\<close>

lemma init_two_by_two:
  "init two_by_two =
     Inr (two_by_two
       \<lparr>particles :=
          [\<lparr>px = Fin 0, py = Fin (- 250), oldx = Fin 0, oldy = Fin (- 250), pinned = True\<rparr>,
           \<lparr>px = Fin 125, py = Fin (- 250), oldx = Fin 125, oldy = Fin (- 250), pinned = True\<rparr>,
           \<lparr>px = Fin 0, py = Fin (- 75), oldx = Fin 0, oldy = Fin (- 75), pinned = False\<rparr>,
           \<lparr>px = Fin 125, py = Fin (- 75), oldx = Fin 125, oldy = Fin (- 75), pinned = False\<rparr>],
        constraints :=
          [\<lparr>p1 = 0, p2 = 1, length_c = Fin 125, active = True\<rparr>,
           \<lparr>p1 = 0, p2 = 2, length_c = Fin 175, active = True\<rparr>,
           \<lparr>p1 = 1, p2 = 3, length_c = Fin 175, active = True\<rparr>,
           \<lparr>p1 = 2, p2 = 3, length_c = Fin 125, active = True\<rparr>]\<rparr>)"
proof -
  have r1: "sqrt 15625 = 125" by (rule real_sqrt_unique) simp_all
  have r2: "sqrt 30625 = 175" by (rule real_sqrt_unique) simp_all
  have upt2: "[0..<2] = [0, 1]" by (simp add: upt_rec)
  show ?thesis
    by (simp add: init_def two_by_two_def DENIM_def Let_def genParticles_def newParticle_def
        genConstraints_def cellConstraints_def addConstraint_def getIdx_def upt2
        CLOTH_WIDTH_def CLOTH_HEIGHT_def js_sub_def r1 r2)
qed

lemma cell_index_inj:
  fixes x y x' y' nx :: nat
  assumes "x < nx" "x' < nx" "y * nx + x = y' * nx + x'"
  shows "x = x' \<and> y = y'"
proof -
  from assms(3) have "(y * nx + x) mod nx = (y' * nx + x') mod nx" by simp
  with assms(1,2) have x: "x = x'" by simp
  from assms(3) have "(y * nx + x) div nx = (y' * nx + x') div nx" by simp
  with assms(1,2) have "y = y'" by simp
  with x show ?thesis by simp
qed

lemma init_particles_cell:
  assumes "x < particlesX (config s)" "y < particlesY (config s)"
  shows "y * particlesX (config s) + x < length (init_particles s) \<and>
         px (init_particles s ! (y * particlesX (config s) + x)) =
           js_add (offsetX s)
             (js_mul (Fin (real x)) (js_div CLOTH_WIDTH (Fin (real (particlesX (config s)))))) \<and>
         py (init_particles s ! (y * particlesX (config s) + x)) =
           js_add (Fin (- 250))
             (js_mul (Fin (real y)) (js_div CLOTH_HEIGHT (Fin (real (particlesY (config s)))))) \<and>
         pinned (init_particles s ! (y * particlesX (config s) + x)) = (y = 0)"
proof -
  have "init_particles s ! getIdx (particlesX (config s)) x y =
      newParticle (offsetX s) (Fin (- 250)) (init_gapX s) (init_gapY s) x y"
    unfolding init_particles_def using assms by (rule nth_genParticles)
  moreover have "getIdx (particlesX (config s)) x y < length (init_particles s)"
    using getIdx_less [OF assms] by (simp add: init_particles_def length_genParticles)
  ultimately show ?thesis
    by (simp add: getIdx_def newParticle_def init_gapX_def init_gapY_def)
qed

text \<open>
  Claim C7. \<open>init\<close> always returns. With \<open>nx\<close> and \<open>ny\<close> the particle counts of the
  configuration, the cloth it returns has \<open>nx * ny\<close> particles and
  \<open>nx * (ny - 1) + (nx - 1) * ny\<close> constraints (in natural numbers, and in integers for a
  grid with at least one row and one column). The particle of the cell in column \<open>x\<close>
  of row \<open>y\<close> is the one at index \<open>y * nx + x\<close>, at
  \<open>(offsetX + x * (250 / nx), - 250 + y * (350 / ny))\<close> and pinned in row 0 only, and
  no two cells share an index. Every constraint is active and goes from the particle of
  a cell \<open>(x, y)\<close> to the particle of the cell to its right, \<open>(x + 1, y)\<close>, or of the
  cell below, \<open>(x, y + 1)\<close>, so none is diagonal, and every such pair of neighbours has
  its constraint. The rest length is \<open>Math.hypot\<close> of the differences of the endpoints'
  initial coordinates, which for a finite offset is the Euclidean distance.
\<close>

theorem init_grid:
  fixes s :: "'a cloth"
  defines "nx \<equiv> particlesX (config s)" and "ny \<equiv> particlesY (config s)"
  shows "\<exists>t. init s = Inr t \<and>
     length (particles t) = nx * ny \<and>
     length (constraints t) = nx * (ny - 1) + (nx - 1) * ny \<and>
     (0 < nx \<and> 0 < ny \<longrightarrow>
        int (length (constraints t)) = int nx * (int ny - 1) + (int nx - 1) * int ny) \<and>
     (\<forall>x y. x < nx \<and> y < ny \<longrightarrow>
        y * nx + x < length (particles t) \<and>
        px (particles t ! (y * nx + x)) =
          js_add (offsetX s) (js_mul (Fin (real x)) (js_div CLOTH_WIDTH (Fin (real nx)))) \<and>
        py (particles t ! (y * nx + x)) =
          js_add (Fin (- 250)) (js_mul (Fin (real y)) (js_div CLOTH_HEIGHT (Fin (real ny)))) \<and>
        pinned (particles t ! (y * nx + x)) = (y = 0)) \<and>
     (\<forall>x y x' y'. x < nx \<and> x' < nx \<and> y * nx + x = y' * nx + x' \<longrightarrow> x = x' \<and> y = y') \<and>
     (\<forall>c\<in>set (constraints t).
        active c \<and>
        (\<exists>x y. x < nx \<and> y < ny \<and> p1 c = y * nx + x \<and>
           (Suc x < nx \<and> p2 c = y * nx + Suc x \<or>
            Suc y < ny \<and> p2 c = Suc y * nx + x)) \<and>
        length_c c =
          js_hypot (js_sub (px (particles t ! p1 c)) (px (particles t ! p2 c)))
                   (js_sub (py (particles t ! p1 c)) (py (particles t ! p2 c)))) \<and>
     (\<forall>x y. Suc x < nx \<and> y < ny \<longrightarrow>
        (\<exists>c\<in>set (constraints t). p1 c = y * nx + x \<and> p2 c = y * nx + Suc x)) \<and>
     (\<forall>x y. x < nx \<and> Suc y < ny \<longrightarrow>
        (\<exists>c\<in>set (constraints t). p1 c = y * nx + x \<and> p2 c = Suc y * nx + x)) \<and>
     (\<forall>off. offsetX s = Fin off \<longrightarrow>
        (\<forall>c\<in>set (constraints t).
           \<exists>xa ya xb yb.
             px (particles t ! p1 c) = Fin xa \<and> py (particles t ! p1 c) = Fin ya \<and>
             px (particles t ! p2 c) = Fin xb \<and> py (particles t ! p2 c) = Fin yb \<and>
             length_c c = Fin (sqrt ((xa - xb)\<^sup>2 + (ya - yb)\<^sup>2))))"
proof -
  define ps where "ps = init_particles s"
  define t where "t = s\<lparr>particles := ps, constraints := grid_edges ps nx ny\<rparr>"
  have t: "init s = Inr t"
    by (simp add: init_result t_def ps_def nx_def ny_def)
  have pt: "particles t = ps" and ct: "constraints t = grid_edges ps nx ny"
    by (simp_all add: t_def)
  have len: "length (particles t) = nx * ny"
    by (simp add: pt ps_def init_particles_def length_genParticles nx_def ny_def)
  have cnt: "length (constraints t) = nx * (ny - 1) + (nx - 1) * ny"
    by (simp add: ct length_grid_edges)
  have cnt_int: "0 < nx \<and> 0 < ny \<longrightarrow>
      int (length (constraints t)) = int nx * (int ny - 1) + (int nx - 1) * int ny"
  proof
    assume "0 < nx \<and> 0 < ny"
    then have "int (ny - 1) = int ny - 1" "int (nx - 1) = int nx - 1" by auto
    then show "int (length (constraints t)) = int nx * (int ny - 1) + (int nx - 1) * int ny"
      by (simp add: cnt)
  qed
  have cells: "\<forall>x y. x < nx \<and> y < ny \<longrightarrow>
        y * nx + x < length (particles t) \<and>
        px (particles t ! (y * nx + x)) =
          js_add (offsetX s) (js_mul (Fin (real x)) (js_div CLOTH_WIDTH (Fin (real nx)))) \<and>
        py (particles t ! (y * nx + x)) =
          js_add (Fin (- 250)) (js_mul (Fin (real y)) (js_div CLOTH_HEIGHT (Fin (real ny)))) \<and>
        pinned (particles t ! (y * nx + x)) = (y = 0)"
    unfolding pt ps_def nx_def ny_def using init_particles_cell [of _ s] by blast
  have inj: "\<forall>x y x' y'. x < nx \<and> x' < nx \<and> y * nx + x = y' * nx + x' \<longrightarrow> x = x' \<and> y = y'"
    using cell_index_inj by blast
  have only: "\<forall>c\<in>set (constraints t).
        active c \<and>
        (\<exists>x y. x < nx \<and> y < ny \<and> p1 c = y * nx + x \<and>
           (Suc x < nx \<and> p2 c = y * nx + Suc x \<or>
            Suc y < ny \<and> p2 c = Suc y * nx + x)) \<and>
        length_c c =
          js_hypot (js_sub (px (particles t ! p1 c)) (px (particles t ! p2 c)))
                   (js_sub (py (particles t ! p1 c)) (py (particles t ! p2 c)))"
  proof
    fix c assume "c \<in> set (constraints t)"
    then have "c \<in> set (grid_edges ps nx ny)" by (simp add: ct)
    from grid_edges_shape [OF this] show "active c \<and>
        (\<exists>x y. x < nx \<and> y < ny \<and> p1 c = y * nx + x \<and>
           (Suc x < nx \<and> p2 c = y * nx + Suc x \<or>
            Suc y < ny \<and> p2 c = Suc y * nx + x)) \<and>
        length_c c =
          js_hypot (js_sub (px (particles t ! p1 c)) (px (particles t ! p2 c)))
                   (js_sub (py (particles t ! p1 c)) (py (particles t ! p2 c)))"
      by (simp add: pt getIdx_def)
  qed
  have right: "\<forall>x y. Suc x < nx \<and> y < ny \<longrightarrow>
        (\<exists>c\<in>set (constraints t). p1 c = y * nx + x \<and> p2 c = y * nx + Suc x)"
    using grid_edges_has_right [of _ nx _ ny ps] by (simp add: ct getIdx_def)
  have bottom: "\<forall>x y. x < nx \<and> Suc y < ny \<longrightarrow>
        (\<exists>c\<in>set (constraints t). p1 c = y * nx + x \<and> p2 c = Suc y * nx + x)"
    using grid_edges_has_bottom [of _ nx _ ny ps] by (simp add: ct getIdx_def)
  have euclid: "\<forall>off. offsetX s = Fin off \<longrightarrow>
        (\<forall>c\<in>set (constraints t).
           \<exists>xa ya xb yb.
             px (particles t ! p1 c) = Fin xa \<and> py (particles t ! p1 c) = Fin ya \<and>
             px (particles t ! p2 c) = Fin xb \<and> py (particles t ! p2 c) = Fin yb \<and>
             length_c c = Fin (sqrt ((xa - xb)\<^sup>2 + (ya - yb)\<^sup>2)))"
  proof (intro allI impI ballI)
    fix off c assume "offsetX s = Fin off" "c \<in> set (constraints t)"
    then show "\<exists>xa ya xb yb.
             px (particles t ! p1 c) = Fin xa \<and> py (particles t ! p1 c) = Fin ya \<and>
             px (particles t ! p2 c) = Fin xb \<and> py (particles t ! p2 c) = Fin yb \<and>
             length_c c = Fin (sqrt ((xa - xb)\<^sup>2 + (ya - yb)\<^sup>2))"
      unfolding pt ct ps_def nx_def ny_def by (rule init_edges_euclid)
  qed
  show ?thesis
    by (rule exI [of _ t]) (intro conjI t len cnt cnt_int cells inj only right bottom euclid)
qed

theorem init_grid_witness:
  "\<exists>t c. init hanging_pair = Inr t \<and>
      length (particles t) = 300 \<and> length (constraints t) = 565 \<and>
      int (length (constraints t)) = 15 * (20 - 1) + (15 - 1) * 20 \<and>
      c \<in> set (constraints t) \<and> p1 c = 1 \<and> p2 c = 16 \<and> active c \<and>
      px (particles t ! 1) = Fin (50 / 3) \<and> py (particles t ! 1) = Fin (- 250) \<and>
      pinned (particles t ! 1) \<and>
      px (particles t ! 16) = Fin (50 / 3) \<and> py (particles t ! 16) = Fin (- 465 / 2) \<and>
      \<not> pinned (particles t ! 16) \<and>
      (\<exists>xa ya xb yb. px (particles t ! 1) = Fin xa \<and> py (particles t ! 1) = Fin ya \<and>
         px (particles t ! 16) = Fin xb \<and> py (particles t ! 16) = Fin yb \<and>
         length_c c = Fin (sqrt ((xa - xb)\<^sup>2 + (ya - yb)\<^sup>2)))"
proof -
  have nx: "particlesX (config hanging_pair) = 15" and ny: "particlesY (config hanging_pair) = 20"
    and off: "offsetX hanging_pair = Fin 0"
    by (simp_all add: hanging_pair_def DENIM_def)
  from init_grid [of hanging_pair, unfolded nx ny] obtain t where
    t: "init hanging_pair = Inr t"
    and len: "length (particles t) = 15 * 20"
    and cnt: "length (constraints t) = 15 * (20 - 1) + (15 - 1) * 20"
    and cnt_int: "0 < (15::nat) \<and> 0 < (20::nat) \<longrightarrow>
        int (length (constraints t)) = int 15 * (int 20 - 1) + (int 15 - 1) * int 20"
    and cells: "\<forall>x y. x < 15 \<and> y < 20 \<longrightarrow>
        y * 15 + x < length (particles t) \<and>
        px (particles t ! (y * 15 + x)) =
          js_add (offsetX hanging_pair)
            (js_mul (Fin (real x)) (js_div CLOTH_WIDTH (Fin (real 15)))) \<and>
        py (particles t ! (y * 15 + x)) =
          js_add (Fin (- 250)) (js_mul (Fin (real y)) (js_div CLOTH_HEIGHT (Fin (real 20)))) \<and>
        pinned (particles t ! (y * 15 + x)) = (y = 0)"
    and only: "\<forall>c\<in>set (constraints t).
        active c \<and>
        (\<exists>x y. x < 15 \<and> y < 20 \<and> p1 c = y * 15 + x \<and>
           (Suc x < 15 \<and> p2 c = y * 15 + Suc x \<or>
            Suc y < 20 \<and> p2 c = Suc y * 15 + x)) \<and>
        length_c c =
          js_hypot (js_sub (px (particles t ! p1 c)) (px (particles t ! p2 c)))
                   (js_sub (py (particles t ! p1 c)) (py (particles t ! p2 c)))"
    and bottom: "\<forall>x y. x < 15 \<and> Suc y < 20 \<longrightarrow>
        (\<exists>c\<in>set (constraints t). p1 c = y * 15 + x \<and> p2 c = Suc y * 15 + x)"
    and euclid: "\<forall>off. offsetX hanging_pair = Fin off \<longrightarrow>
        (\<forall>c\<in>set (constraints t).
           \<exists>xa ya xb yb.
             px (particles t ! p1 c) = Fin xa \<and> py (particles t ! p1 c) = Fin ya \<and>
             px (particles t ! p2 c) = Fin xb \<and> py (particles t ! p2 c) = Fin yb \<and>
             length_c c = Fin (sqrt ((xa - xb)\<^sup>2 + (ya - yb)\<^sup>2)))"
    by (elim exE conjE)
  from bottom [rule_format, of 1 0] obtain c where
    c: "c \<in> set (constraints t)" "p1 c = 1" "p2 c = 16"
    by auto
  from only c have act: "active c" by blast
  from cells [rule_format, of 1 0] off
  have top: "px (particles t ! 1) = Fin (50 / 3)" "py (particles t ! 1) = Fin (- 250)"
    "pinned (particles t ! 1)"
    by (simp_all add: CLOTH_WIDTH_def CLOTH_HEIGHT_def)
  from cells [rule_format, of 1 1] off
  have below: "px (particles t ! 16) = Fin (50 / 3)" "py (particles t ! 16) = Fin (- 465 / 2)"
    "\<not> pinned (particles t ! 16)"
    by (simp_all add: CLOTH_WIDTH_def CLOTH_HEIGHT_def)
  from euclid [rule_format, OF off c(1)] c obtain xa ya xb yb where
    "px (particles t ! 1) = Fin xa" "py (particles t ! 1) = Fin ya"
    "px (particles t ! 16) = Fin xb" "py (particles t ! 16) = Fin yb"
    "length_c c = Fin (sqrt ((xa - xb)\<^sup>2 + (ya - yb)\<^sup>2))"
    by auto
  moreover from cnt_int have "int (length (constraints t)) = 15 * (20 - 1) + (15 - 1) * 20"
    by simp
  moreover from len cnt have "length (particles t) = 300" "length (constraints t) = 565"
    by simp_all
  ultimately show ?thesis using t c act top below by blast
qed

section \<open>Reset is idempotent\<close>

text \<open>
  Claim C9. \<open>init\<close> always returns, and what it returns is determined by the
  configuration and the horizontal offset alone: from any other state of the cloth with
  the same configuration and offset, and in particular from its own result, \<open>init\<close>
  returns the same particle and constraint arrays.
\<close>

theorem init_idempotent:
  "\<exists>t. init s = Inr t \<and> init t = Inr t \<and>
       (\<forall>s'. config s' = config s \<and> offsetX s' = offsetX s \<longrightarrow> init s' = Inr t)"
proof -
  define t where "t = s\<lparr>particles := init_particles s,
            constraints := grid_edges (init_particles s)
              (particlesX (config s)) (particlesY (config s))\<rparr>"
  have same: "init s' = Inr t" if h: "config s' = config s \<and> offsetX s' = offsetX s" for s'
  proof -
    have ps: "init_particles s' = init_particles s"
      using h by (intro init_particles_cong) simp_all
    have "s'\<lparr>particles := init_particles s',
            constraints := grid_edges (init_particles s')
              (particlesX (config s')) (particlesY (config s'))\<rparr> = t"
      unfolding t_def by (rule cloth.equality) (simp_all add: ps h)
    then show ?thesis by (simp only: init_result)
  qed
  show ?thesis
  proof (intro exI [of _ t] conjI allI impI)
    show "init s = Inr t" by (rule same) simp
    show "init t = Inr t" by (rule same) (simp add: t_def)
    show "init s' = Inr t" if "config s' = config s \<and> offsetX s' = offsetX s" for s'
      using that by (rule same)
  qed
qed

theorem init_idempotent_witness:
  "\<exists>t. init hanging_pair = Inr t \<and> init t = Inr t \<and> init severed_pair = Inr t"
proof -
  have same: "config severed_pair = config hanging_pair \<and>
              offsetX severed_pair = offsetX hanging_pair"
    by (simp add: severed_pair_def)
  from init_idempotent [of hanging_pair] obtain t where
    "init hanging_pair = Inr t" "init t = Inr t"
    "\<forall>s'. config s' = config hanging_pair \<and> offsetX s' = offsetX hanging_pair \<longrightarrow>
        init s' = Inr t"
    by blast
  with same show ?thesis by blast
qed

section \<open>The pinned top row after a reset\<close>

text \<open>
  \<open>init\<close> pins the particles of row 0, which are the first \<open>particlesX\<close> particles
  of the array, and the cloth it returns satisfies \<open>indices_ok\<close>: through any sequence of
  calls the top row stays as \<open>init\<close> made it.
\<close>

lemma init_top_row:
  assumes "init s0 = Inr s" "x < particlesX (config s0)" "0 < particlesY (config s0)"
  shows "x < length (particles s) \<and> pinned (particles s ! x)"
proof -
  from assms(1) have ps: "particles s = init_particles s0"
    by (auto simp: init_result)
  have "getIdx (particlesX (config s0)) x 0 = x" by (simp add: getIdx_def)
  then have "init_particles s0 ! x =
      newParticle (offsetX s0) (Fin (- 250)) (init_gapX s0) (init_gapY s0) x 0"
    using nth_genParticles [of x "particlesX (config s0)" 0 "particlesY (config s0)"] assms(2,3)
    by (simp add: init_particles_def)
  moreover have "x < length (init_particles s0)"
    using getIdx_less [of x "particlesX (config s0)" 0 "particlesY (config s0)"] assms(2,3)
    by (simp add: init_particles_def length_genParticles getIdx_def)
  ultimately show ?thesis by (simp add: ps newParticle_def)
qed

lemma top_row_fixed:
  assumes "init s0 = Inr s" "x < particlesX (config s0)" "0 < particlesY (config s0)"
  shows "\<exists>t. do_calls cs s = Inr t \<and> particles t ! x = particles s ! x"
proof -
  from assms(1) have "indices_ok s" by (rule init_indices_ok)
  then obtain t where t: "do_calls cs s = Inr t" using do_calls_total by blast
  then have "pins_kept (particles s) (particles t)"
    using do_calls_kept [of cs s t] by (simp add: call_kept_def)
  with init_top_row [OF assms] t show ?thesis by (auto simp: pins_kept_def)
qed

end
